theory Spec2Isabelle
  imports Main "HOL-Library.AList" "HOL-Library.Sublist"
begin

section \<open>Strings\<close>

text \<open>
  A Python string is kept as a \<open>string\<close>: an ASCII character is the \<open>char\<close> of its code,
  and any other character is kept in an encoding that uses the ASCII codes for nothing but
  the ASCII characters, as UTF-8 does. The code below compares strings, concatenates them
  and looks in them for ASCII characters only (\<open>_\<close>, \<open>.\<close>, \<open>?\<close>, \<open>enum\<close>,
  \<open>structure\<close>), which such an encoding keeps exact.

  The one operation that depends on the character database of Python is \<open>str.title\<close>.
  It is a built-in of the language, not code of this program, and the builder takes it as
  a parameter, \<open>ttl\<close>, wherever it camel-cases a name. \<open>ascii_title\<close> is what
  \<open>str.title\<close> does on a string of ASCII characters, where the cased characters are the
  52 letters; it serves to evaluate the builder on examples.
\<close>

definition lower_letters :: string where
  "lower_letters = ''abcdefghijklmnopqrstuvwxyz''"

definition upper_letters :: string where
  "upper_letters = ''ABCDEFGHIJKLMNOPQRSTUVWXYZ''"

definition is_lower :: "char \<Rightarrow> bool" where
  "is_lower c = (c \<in> set lower_letters)"

definition is_upper :: "char \<Rightarrow> bool" where
  "is_upper c = (c \<in> set upper_letters)"

definition is_cased :: "char \<Rightarrow> bool" where
  "is_cased c = (is_lower c \<or> is_upper c)"

definition to_upper :: "char \<Rightarrow> char" where
  "to_upper c = (case map_of (zip lower_letters upper_letters) c of Some u \<Rightarrow> u | None \<Rightarrow> c)"

definition to_lower :: "char \<Rightarrow> char" where
  "to_lower c = (case map_of (zip upper_letters lower_letters) c of Some l \<Rightarrow> l | None \<Rightarrow> c)"

text \<open>
  \<open>str.title\<close> on ASCII strings: a character that follows a cased character is lowered,
  any other character is put in upper case; the flag records whether the previous character
  was cased.
\<close>

fun ascii_title_from :: "bool \<Rightarrow> string \<Rightarrow> string" where
  "ascii_title_from prev [] = []"
| "ascii_title_from prev (c # cs) =
     (if prev then to_lower c else to_upper c) # ascii_title_from (is_cased c) cs"

definition ascii_title :: "string \<Rightarrow> string" where
  "ascii_title s = ascii_title_from False s"

text \<open>\<open>s.split(sep)\<close> for a separator of one character: never returns the empty list.\<close>

fun split :: "char \<Rightarrow> string \<Rightarrow> string list" where
  "split sep [] = [[]]"
| "split sep (c # cs) =
     (if c = sep then [] # split sep cs
      else (case split sep cs of
              [] \<Rightarrow> [[c]]
            | p # ps \<Rightarrow> (c # p) # ps))"

text \<open>\<open>sep.join(parts)\<close>.\<close>

fun join :: "string \<Rightarrow> string list \<Rightarrow> string" where
  "join sep [] = []"
| "join sep [p] = p"
| "join sep (p # q # ps) = p @ sep @ join sep (q # ps)"

text \<open>\<open>sub in s\<close> on strings: \<open>sub\<close> occurs in \<open>s\<close> as a contiguous run.\<close>

fun substring :: "string \<Rightarrow> string \<Rightarrow> bool" where
  "substring sub [] = (sub = [])"
| "substring sub (c # cs) = (prefix sub (c # cs) \<or> substring sub cs)"

text \<open>\<open>_camel_case\<close> (the leading underscore is not an Isabelle name), with \<open>str.title\<close>
  as its first argument.\<close>

definition camel_case :: "(string \<Rightarrow> string) \<Rightarrow> string \<Rightarrow> string" where
  "camel_case ttl s = concat (map ttl (split (CHR ''_'') s))"

section \<open>Schema nodes\<close>

text \<open>
  What \<open>yaml.safe_load\<close> hands back: scalars, mappings (insertion-ordered, with scalar
  keys) and sequences. Floats and the other scalar types behave as \<open>NInt\<close> does in
  everything below: they are neither strings nor containers.
\<close>

datatype key = KStr string | KInt int | KBool bool | KNull

datatype node =
    NStr string
  | NInt int
  | NBool bool
  | NNull
  | NMap "(key \<times> node) list"
  | NSeq "node list"

text \<open>The exceptions that stop a build. The last two arise only in the model on a store
  below: \<open>RecursionError\<close> where recursion goes deeper than the bound, and \<open>NoObject\<close>,
  which is not an exception of Python, for an address that holds no object.\<close>

datatype error =
    TypeError
  | KeyError
  | IndexError
  | AssertionError
  | UnboundLocalError
  | RecursionError
  | NoObject

text \<open>\<open>k in x\<close> for a string \<open>k\<close>: substring test on a string, key test on a mapping,
  element test on a sequence, \<open>TypeError\<close> on everything else.\<close>

fun py_in :: "string \<Rightarrow> node \<Rightarrow> error + bool" where
  "py_in k (NStr s) = Inr (substring k s)"
| "py_in k (NMap kvs) = Inr (KStr k \<in> set (map fst kvs))"
| "py_in k (NSeq xs) = Inr (NStr k \<in> set xs)"
| "py_in k (NInt i) = Inl TypeError"
| "py_in k (NBool b) = Inl TypeError"
| "py_in k NNull = Inl TypeError"

text \<open>\<open>x[k]\<close> for a string \<open>k\<close>: only a mapping can be indexed by a string.\<close>

fun py_getitem :: "node \<Rightarrow> string \<Rightarrow> error + node" where
  "py_getitem (NMap kvs) k =
     (case map_of kvs (KStr k) of None \<Rightarrow> Inl KeyError | Some v \<Rightarrow> Inr v)"
| "py_getitem (NStr s) k = Inl TypeError"
| "py_getitem (NSeq xs) k = Inl TypeError"
| "py_getitem (NInt i) k = Inl TypeError"
| "py_getitem (NBool b) k = Inl TypeError"
| "py_getitem NNull k = Inl TypeError"

text \<open>\<open>k[-1]\<close> and \<open>k[:-1]\<close> on a mapping key.\<close>

fun key_last :: "key \<Rightarrow> error + char" where
  "key_last (KStr s) = (if s = [] then Inl IndexError else Inr (last s))"
| "key_last (KInt i) = Inl TypeError"
| "key_last (KBool b) = Inl TypeError"
| "key_last KNull = Inl TypeError"

fun key_str :: "key \<Rightarrow> string" where
  "key_str (KStr s) = s"
| "key_str (KInt i) = []"
| "key_str (KBool b) = []"
| "key_str KNull = []"

section \<open>Type definitions\<close>

text \<open>
  The classes \<open>Reference\<close>, \<open>Optional\<close>, \<open>Primitive\<close>, \<open>Object\<close>, \<open>Array\<close> and
  \<open>EnumClass\<close>. The fields of an \<open>Object\<close> are a Python \<open>dict\<close>, kept as an association
  list in insertion order; the values of an \<open>EnumClass\<close> are whatever is found under
  \<open>enum\<close>, of type \<open>'v\<close>: a node where nodes are values, an address where they are objects
  in a store.
\<close>

datatype 'v tdef =
    Reference string string
  | Optional "'v tdef"
  | Primitive string
  | Object string string "(string \<times> 'v tdef) list"
  | Array string string "'v tdef"
  | EnumClass string string 'v

record 'v Namespace =
  name :: string
  types :: "(string \<times> 'v tdef) list"

text \<open>The constructor of \<open>Optional\<close> with its assertion.\<close>

fun is_Optional :: "'v tdef \<Rightarrow> bool" where
  "is_Optional (Optional t) = True"
| "is_Optional _ = False"

definition mk_Optional :: "'v tdef \<Rightarrow> error + 'v tdef" where
  "mk_Optional t = (if is_Optional t then Inl AssertionError else Inr (Optional t))"

text \<open>The keys of \<open>Primitive.map\<close>.\<close>

definition Primitive_map :: "string list" where
  "Primitive_map = [''str'', ''bool'', ''int'', ''float'']"

text \<open>The attribute \<open>name\<close> of a result that reaches the registration.\<close>

fun res_name :: "'v tdef \<Rightarrow> string" where
  "res_name (Reference n p) = n"
| "res_name (Primitive n) = n"
| "res_name (Object n p fs) = n"
| "res_name (Array n p t) = n"
| "res_name (EnumClass n p vs) = n"
| "res_name (Optional t) = []"

text \<open>\<open>namespace.types[res.name] = res\<close>: a dict assignment keeps the position of a key
  that is present and appends a new key.\<close>

definition register :: "'v Namespace \<Rightarrow> 'v tdef \<Rightarrow> 'v Namespace" where
  "register ns res = ns\<lparr>types := AList.update (res_name res) res (types ns)\<rparr>"

definition resolve_refpath :: "'v Namespace \<Rightarrow> string \<Rightarrow> string \<times> string" where
  "resolve_refpath ns path =
     (if CHR ''.'' \<in> set path
      then (let parts = split (CHR ''.'') path in (last parts, join ''.'' (butlast parts)))
      else (path, name ns))"

section \<open>The builder\<close>

text \<open>
  \<open>create_types\<close> with a namespace; its first argument \<open>ttl\<close> is \<open>str.title\<close>, which
  \<open>_camel_case\<close> calls. The body is split where the source rebinds
  \<open>struct\<close>: \<open>create_types\<close> is the enum test and the unwrapping of \<open>structure\<close>,
  \<open>build_struct\<close> is the rest of the body (the three tests on the type of \<open>struct\<close> and the
  registration), which runs on the unwrapped node without looking for \<open>enum\<close> or
  \<open>structure\<close> again, and \<open>create_fields\<close> is the loop over the items of a mapping,
  whose last argument is the dict \<open>fields\<close> built so far. The namespace is passed through
  and returned, since the table \<open>namespace.types\<close> is written on the way.
  \<open>copy.deepcopy\<close> is the identity on values. Nodes are finite trees here and Python's
  recursion limit is left out: the model on a store, further down, has both the objects and
  the bound.
\<close>

function create_types :: "(string \<Rightarrow> string) \<Rightarrow> node Namespace \<Rightarrow> string \<Rightarrow> node \<Rightarrow> error + (node tdef \<times> node Namespace)"
  and build_struct :: "(string \<Rightarrow> string) \<Rightarrow> node Namespace \<Rightarrow> string \<Rightarrow> node \<Rightarrow> error + (node tdef \<times> node Namespace)"
  and create_fields :: "(string \<Rightarrow> string) \<Rightarrow> node Namespace \<Rightarrow> string \<Rightarrow> (key \<times> node) list \<Rightarrow> (string \<times> node tdef) list
        \<Rightarrow> error + ((string \<times> node tdef) list \<times> node Namespace)"
where
  "create_types ttl ns n desc =
     (case py_in ''enum'' desc of
        Inl e \<Rightarrow> Inl e
      | Inr has_enum \<Rightarrow>
          if has_enum then
            (case py_getitem desc ''enum'' of
               Inl e \<Rightarrow> Inl e
             | Inr vs \<Rightarrow> (let res = EnumClass n (name ns) vs in Inr (res, register ns res)))
          else
            (case py_in ''structure'' desc of
               Inl e \<Rightarrow> Inl e
             | Inr has_structure \<Rightarrow>
                 if has_structure then
                   (case py_getitem desc ''structure'' of
                      Inl e \<Rightarrow> Inl e
                    | Inr struct \<Rightarrow> build_struct ttl ns n struct)
                 else build_struct ttl ns n desc))"
| "build_struct ttl ns n (NStr s) =
     (if s \<notin> set Primitive_map
      then Inr (case_prod Reference (resolve_refpath ns s), ns)
      else (let res = Primitive s in Inr (res, register ns res)))"
| "build_struct ttl ns n (NMap kvs) =
     (case create_fields ttl ns n kvs [] of
        Inl e \<Rightarrow> Inl e
      | Inr (flds, ns') \<Rightarrow>
          (let res = Object n (name ns') flds in Inr (res, register ns' res)))"
| "build_struct ttl ns n (NSeq xs) =
     (case xs of
        [x] \<Rightarrow>
          (case create_types ttl ns (n @ ''Item'') x of
             Inl e \<Rightarrow> Inl e
           | Inr (item, ns') \<Rightarrow>
               (let res = Array n (name ns) item in Inr (res, register ns' res)))
      | _ \<Rightarrow> Inl AssertionError)"
| "build_struct ttl ns n (NInt i) = Inl UnboundLocalError"
| "build_struct ttl ns n (NBool b) = Inl UnboundLocalError"
| "build_struct ttl ns n NNull = Inl UnboundLocalError"
| "create_fields ttl ns n [] flds = Inr (flds, ns)"
| "create_fields ttl ns n ((k, v) # rest) flds =
     (case key_last k of
        Inl e \<Rightarrow> Inl e
      | Inr c \<Rightarrow>
          if c = CHR ''?'' then
            (case create_types ttl ns (n @ camel_case ttl (butlast (key_str k))) v of
               Inl e \<Rightarrow> Inl e
             | Inr (t, ns') \<Rightarrow>
                 (case mk_Optional t of
                    Inl e \<Rightarrow> Inl e
                  | Inr v' \<Rightarrow>
                      create_fields ttl ns' n rest (AList.update (butlast (key_str k)) v' flds)))
          else
            (case create_types ttl ns (n @ camel_case ttl (key_str k)) v of
               Inl e \<Rightarrow> Inl e
             | Inr (v', ns') \<Rightarrow> create_fields ttl ns' n rest (AList.update (key_str k) v' flds)))"
  by pat_completeness auto

termination
proof -
  have member_size: "size v < size_list (size_prod (\<lambda>x. 0) size) kvs"
    if "(k, v) \<in> set kvs" for k :: key and v :: node and kvs
    using that by (induction kvs) auto
  have getitem_size: "size s < size d" if "py_getitem d k = Inr s" for d k s
  proof (cases d)
    case (NMap kvs)
    with that have "map_of kvs (KStr k) = Some s"
      by (simp split: option.splits)
    then have "(KStr k, s) \<in> set kvs"
      by (rule map_of_SomeD)
    then have "size s < size_list (size_prod (\<lambda>x. 0) size) kvs"
      by (rule member_size)
    with NMap show ?thesis by simp
  qed (use that in simp_all)
  show ?thesis
  proof (relation "measure (\<lambda>x. case x of
            Inl (ttl, ns, n, desc) \<Rightarrow> 2 * size desc + 1
          | Inr (Inl (ttl, ns, n, struct)) \<Rightarrow> 2 * size struct
          | Inr (Inr (ttl, ns, n, kvs, flds)) \<Rightarrow> 2 * size_list (size_prod (\<lambda>x. 0) size) kvs)")
    show "wf (measure (\<lambda>x. case x of
            Inl (ttl, ns, n, desc) \<Rightarrow> 2 * size desc + 1
          | Inr (Inl (ttl, ns, n, struct)) \<Rightarrow> 2 * size struct
          | Inr (Inr (ttl, ns, n, kvs, flds)) \<Rightarrow> 2 * size_list (size_prod (\<lambda>x. 0) size) kvs))"
      by simp
  qed (auto dest!: getitem_size)
qed

text \<open>
  The branch \<open>namespace is None\<close>, on a document whose \<open>namespace\<close> is the string \<open>nm\<close>
  and whose \<open>types\<close> is a mapping \<open>tys\<close> with string keys: a fresh namespace with an empty
  table, and one build for each declared type, in order. \<open>create_all\<close> is the loop.
\<close>

fun create_all :: "(string \<Rightarrow> string) \<Rightarrow> node Namespace \<Rightarrow> (string \<times> node) list \<Rightarrow> error + node Namespace" where
  "create_all ttl ns [] = Inr ns"
| "create_all ttl ns ((k, v) # rest) =
     (case create_types ttl ns k v of
        Inl e \<Rightarrow> Inl e
      | Inr (t, ns') \<Rightarrow> create_all ttl ns' rest)"

definition create_types_root :: "(string \<Rightarrow> string) \<Rightarrow> string \<Rightarrow> (string \<times> node) list \<Rightarrow> error + node Namespace" where
  "create_types_root ttl nm tys = create_all ttl \<lparr>name = nm, types = []\<rparr> tys"

section \<open>The builder on a store\<close>

text \<open>
  The same code with the nodes as Python objects: a store is the list of the objects
  allocated so far, an address is an index into it, and a mapping or a sequence holds the
  addresses of its items. This is the model in which copying and aliasing show. Every
  computation returns its outcome, an error or a result, with the store as it then is.
  Recursion is bounded by a fuel, as Python bounds it by its recursion limit: where the fuel
  is used up the outcome is \<open>RecursionError\<close>. An address that is not allocated, which no
  Python program can hold, gives \<open>NoObject\<close>.

  \<open>list_append\<close> and \<open>dict_setitem\<close> are \<open>y.append(a)\<close> and \<open>y[k] = a\<close> on the object at
  \<open>y\<close>. \<open>deepcopy\<close> is \<open>copy.deepcopy\<close> of the standard library with its memo: an object
  found in the memo gives the copy recorded there, a sequence or a mapping gives a new empty
  object, recorded in the memo before it is filled with the copies of the items, and any
  other object is returned as it is. \<open>deepcopy_list\<close> and \<open>deepcopy_dict\<close> are the two
  filling loops; their first argument \<open>rec\<close> is the recursive call.
\<close>

type_synonym addr = nat

datatype obj =
    OStr string
  | OInt int
  | OBool bool
  | ONull
  | OMap "(key \<times> addr) list"
  | OSeq "addr list"

type_synonym store = "obj list"

type_synonym memo = "(addr \<times> addr) list"

type_synonym 'a outcome = "(error + 'a) \<times> store"

definition deref :: "store \<Rightarrow> addr \<Rightarrow> obj option" where
  "deref h a = (if a < length h then Some (h ! a) else None)"

definition list_append :: "store \<Rightarrow> addr \<Rightarrow> addr \<Rightarrow> store" where
  "list_append h y a = h[y := (case h ! y of OSeq ys \<Rightarrow> OSeq (ys @ [a]) | ob \<Rightarrow> ob)]"

definition dict_setitem :: "store \<Rightarrow> addr \<Rightarrow> key \<Rightarrow> addr \<Rightarrow> store" where
  "dict_setitem h y k a =
     h[y := (case h ! y of OMap kvs \<Rightarrow> OMap (AList.update k a kvs) | ob \<Rightarrow> ob)]"

fun deepcopy_list :: "(store \<Rightarrow> memo \<Rightarrow> addr \<Rightarrow> (memo \<times> addr) outcome)
      \<Rightarrow> store \<Rightarrow> memo \<Rightarrow> addr \<Rightarrow> addr list \<Rightarrow> (memo \<times> addr) outcome" where
  "deepcopy_list rec h memo y [] = (Inr (memo, y), h)"
| "deepcopy_list rec h memo y (a # as) =
     (case rec h memo a of
        (Inl e, h') \<Rightarrow> (Inl e, h')
      | (Inr (memo', a'), h') \<Rightarrow> deepcopy_list rec (list_append h' y a') memo' y as)"

fun deepcopy_dict :: "(store \<Rightarrow> memo \<Rightarrow> addr \<Rightarrow> (memo \<times> addr) outcome)
      \<Rightarrow> store \<Rightarrow> memo \<Rightarrow> addr \<Rightarrow> (key \<times> addr) list \<Rightarrow> (memo \<times> addr) outcome" where
  "deepcopy_dict rec h memo y [] = (Inr (memo, y), h)"
| "deepcopy_dict rec h memo y ((k, a) # kvs) =
     (case rec h memo a of
        (Inl e, h') \<Rightarrow> (Inl e, h')
      | (Inr (memo', a'), h') \<Rightarrow> deepcopy_dict rec (dict_setitem h' y k a') memo' y kvs)"

primrec deepcopy :: "nat \<Rightarrow> store \<Rightarrow> memo \<Rightarrow> addr \<Rightarrow> (memo \<times> addr) outcome" where
  "deepcopy 0 h memo x = (Inl RecursionError, h)"
| "deepcopy (Suc fuel) h memo x =
     (case map_of memo x of
        Some y \<Rightarrow> (Inr (memo, y), h)
      | None \<Rightarrow>
          (case deref h x of
             None \<Rightarrow> (Inl NoObject, h)
           | Some (OSeq xs) \<Rightarrow>
               deepcopy_list (deepcopy fuel) (h @ [OSeq []]) ((x, length h) # memo) (length h) xs
           | Some (OMap kvs) \<Rightarrow>
               deepcopy_dict (deepcopy fuel) (h @ [OMap []]) ((x, length h) # memo) (length h) kvs
           | Some _ \<Rightarrow> (Inr (memo, x), h)))"

text \<open>
  \<open>create_types_h\<close> is \<open>create_types\<close> on a store, cut as \<open>create_types\<close> above is:
  \<open>build_struct_h\<close> and \<open>create_fields_h\<close> take the recursive call of \<open>create_types_h\<close>
  as the argument \<open>rec\<close>. \<open>py_in_h\<close> and \<open>py_getitem_h\<close> read the store.
\<close>

definition py_in_h :: "store \<Rightarrow> string \<Rightarrow> addr \<Rightarrow> error + bool" where
  "py_in_h h k a =
     (case deref h a of
        None \<Rightarrow> Inl NoObject
      | Some (OStr s) \<Rightarrow> Inr (substring k s)
      | Some (OMap kvs) \<Rightarrow> Inr (KStr k \<in> set (map fst kvs))
      | Some (OSeq xs) \<Rightarrow> Inr (list_ex (\<lambda>x. deref h x = Some (OStr k)) xs)
      | Some _ \<Rightarrow> Inl TypeError)"

definition py_getitem_h :: "store \<Rightarrow> addr \<Rightarrow> string \<Rightarrow> error + addr" where
  "py_getitem_h h a k =
     (case deref h a of
        None \<Rightarrow> Inl NoObject
      | Some (OMap kvs) \<Rightarrow>
          (case map_of kvs (KStr k) of None \<Rightarrow> Inl KeyError | Some v \<Rightarrow> Inr v)
      | Some _ \<Rightarrow> Inl TypeError)"

fun create_fields_h ::
  "(string \<Rightarrow> string) \<Rightarrow> (store \<Rightarrow> addr Namespace \<Rightarrow> string \<Rightarrow> addr \<Rightarrow> (addr tdef \<times> addr Namespace) outcome)
    \<Rightarrow> store \<Rightarrow> addr Namespace \<Rightarrow> string \<Rightarrow> (key \<times> addr) list \<Rightarrow> (string \<times> addr tdef) list
    \<Rightarrow> ((string \<times> addr tdef) list \<times> addr Namespace) outcome" where
  "create_fields_h ttl rec h ns n [] flds = (Inr (flds, ns), h)"
| "create_fields_h ttl rec h ns n ((k, v) # rest) flds =
     (case key_last k of
        Inl e \<Rightarrow> (Inl e, h)
      | Inr c \<Rightarrow>
          if c = CHR ''?'' then
            (case rec h ns (n @ camel_case ttl (butlast (key_str k))) v of
               (Inl e, h') \<Rightarrow> (Inl e, h')
             | (Inr (t, ns'), h') \<Rightarrow>
                 (case mk_Optional t of
                    Inl e \<Rightarrow> (Inl e, h')
                  | Inr v' \<Rightarrow>
                      create_fields_h ttl rec h' ns' n rest
                        (AList.update (butlast (key_str k)) v' flds)))
          else
            (case rec h ns (n @ camel_case ttl (key_str k)) v of
               (Inl e, h') \<Rightarrow> (Inl e, h')
             | (Inr (v', ns'), h') \<Rightarrow>
                 create_fields_h ttl rec h' ns' n rest (AList.update (key_str k) v' flds)))"

definition build_struct_h ::
  "(string \<Rightarrow> string) \<Rightarrow> (store \<Rightarrow> addr Namespace \<Rightarrow> string \<Rightarrow> addr \<Rightarrow> (addr tdef \<times> addr Namespace) outcome)
    \<Rightarrow> store \<Rightarrow> addr Namespace \<Rightarrow> string \<Rightarrow> addr \<Rightarrow> (addr tdef \<times> addr Namespace) outcome" where
  "build_struct_h ttl rec h ns n struct =
     (case deref h struct of
        None \<Rightarrow> (Inl NoObject, h)
      | Some (OStr s) \<Rightarrow>
          if s \<notin> set Primitive_map
          then (Inr (case_prod Reference (resolve_refpath ns s), ns), h)
          else (let res = Primitive s in (Inr (res, register ns res), h))
      | Some (OMap kvs) \<Rightarrow>
          (case create_fields_h ttl rec h ns n kvs [] of
             (Inl e, h') \<Rightarrow> (Inl e, h')
           | (Inr (flds, ns'), h') \<Rightarrow>
               (let res = Object n (name ns') flds in (Inr (res, register ns' res), h')))
      | Some (OSeq xs) \<Rightarrow>
          (case xs of
             [x] \<Rightarrow>
               (case rec h ns (n @ ''Item'') x of
                  (Inl e, h') \<Rightarrow> (Inl e, h')
                | (Inr (item, ns'), h') \<Rightarrow>
                    (let res = Array n (name ns) item in (Inr (res, register ns' res), h')))
           | _ \<Rightarrow> (Inl AssertionError, h))
      | Some _ \<Rightarrow> (Inl UnboundLocalError, h))"

primrec create_types_h :: "(string \<Rightarrow> string) \<Rightarrow> nat \<Rightarrow> store \<Rightarrow> addr Namespace \<Rightarrow> string \<Rightarrow> addr
      \<Rightarrow> (addr tdef \<times> addr Namespace) outcome" where
  "create_types_h ttl 0 h ns n desc = (Inl RecursionError, h)"
| "create_types_h ttl (Suc fuel) h ns n desc =
     (case deepcopy fuel h [] desc of
        (Inl e, h1) \<Rightarrow> (Inl e, h1)
      | (Inr (memo, struct), h1) \<Rightarrow>
          (case py_in_h h1 ''enum'' struct of
             Inl e \<Rightarrow> (Inl e, h1)
           | Inr has_enum \<Rightarrow>
               if has_enum then
                 (case py_getitem_h h1 struct ''enum'' of
                    Inl e \<Rightarrow> (Inl e, h1)
                  | Inr vs \<Rightarrow>
                      (let res = EnumClass n (name ns) vs in (Inr (res, register ns res), h1)))
               else
                 (case py_in_h h1 ''structure'' struct of
                    Inl e \<Rightarrow> (Inl e, h1)
                  | Inr has_structure \<Rightarrow>
                      if has_structure then
                        (case py_getitem_h h1 struct ''structure'' of
                           Inl e \<Rightarrow> (Inl e, h1)
                         | Inr struct' \<Rightarrow>
                             build_struct_h ttl (create_types_h ttl fuel) h1 ns n struct')
                      else build_struct_h ttl (create_types_h ttl fuel) h1 ns n struct)))"

text \<open>The node an address denotes, read from the store to a given depth.\<close>

primrec node_of :: "nat \<Rightarrow> store \<Rightarrow> addr \<Rightarrow> node option" where
  "node_of 0 h a = None"
| "node_of (Suc fuel) h a =
     (case deref h a of
        None \<Rightarrow> None
      | Some (OStr s) \<Rightarrow> Some (NStr s)
      | Some (OInt i) \<Rightarrow> Some (NInt i)
      | Some (OBool b) \<Rightarrow> Some (NBool b)
      | Some ONull \<Rightarrow> Some NNull
      | Some (OMap kvs) \<Rightarrow>
          map_option NMap (those (map (\<lambda>(k, v). map_option (Pair k) (node_of fuel h v)) kvs))
      | Some (OSeq xs) \<Rightarrow> map_option NSeq (those (map (node_of fuel h) xs)))"

section \<open>Notions used in the properties\<close>

text \<open>The results that have a place in a type table: every class but \<open>Reference\<close> and
  \<open>Optional\<close>.\<close>

fun registrable :: "'v tdef \<Rightarrow> bool" where
  "registrable (Reference n p) = False"
| "registrable (Optional t) = False"
| "registrable (Primitive n) = True"
| "registrable (Object n p fs) = True"
| "registrable (Array n p t) = True"
| "registrable (EnumClass n p vs) = True"

text \<open>The shapes a node can have for the builder: a string, a mapping (with \<open>enum\<close>, with
  \<open>structure\<close> or generic) and a sequence.\<close>

fun recognized :: "node \<Rightarrow> bool" where
  "recognized (NStr s) = True"
| "recognized (NMap kvs) = True"
| "recognized (NSeq xs) = True"
| "recognized (NInt i) = False"
| "recognized (NBool b) = False"
| "recognized NNull = False"

text \<open>The name of the field a mapping key declares (the key without its marker \<open>?\<close>) and
  the type the field gets from the type built for its node.\<close>

definition optional_key :: "key \<Rightarrow> bool" where
  "optional_key k = (key_str k \<noteq> [] \<and> last (key_str k) = CHR ''?'')"

definition field_key :: "key \<Rightarrow> string" where
  "field_key k = (if optional_key k then butlast (key_str k) else key_str k)"

definition field_type :: "key \<Rightarrow> 'v tdef \<Rightarrow> 'v tdef" where
  "field_type k t = (if optional_key k then Optional t else t)"

text \<open>\<open>opt_chain\<close> counts the \<open>Optional\<close>s stacked at the top of a definition,
  \<open>opt_depth\<close> is the longest such stack anywhere inside it.\<close>

fun opt_chain :: "'v tdef \<Rightarrow> nat" where
  "opt_chain (Optional t) = Suc (opt_chain t)"
| "opt_chain _ = 0"

fun opt_depth :: "'v tdef \<Rightarrow> nat" where
  "opt_depth (Optional t) = max (Suc (opt_chain t)) (opt_depth t)"
| "opt_depth (Object n p fs) = fold max (map (\<lambda>(k, t). opt_depth t) fs) 0"
| "opt_depth (Array n p t) = opt_depth t"
| "opt_depth (Reference n p) = 0"
| "opt_depth (Primitive n) = 0"
| "opt_depth (EnumClass n p vs) = 0"

text \<open>A run of registrations, and a run of assignments to the dict of fields.\<close>

definition register_all :: "'v Namespace \<Rightarrow> 'v tdef list \<Rightarrow> 'v Namespace" where
  "register_all ns rs = foldl register ns rs"

definition update_all :: "(string \<times> 'v tdef) list \<Rightarrow> (string \<times> 'v tdef) list \<Rightarrow> (string \<times> 'v tdef) list"
  where
  "update_all flds us = foldl (\<lambda>f (k, t). AList.update k t f) flds us"

declare create_types.simps [simp del]

section \<open>Unfolding and induction for the builder\<close>

lemma py_getitem_size: "py_getitem d k = Inr s \<Longrightarrow> size s < size d"
proof (cases d)
  case (NMap kvs)
  assume "py_getitem d k = Inr s"
  with NMap have "map_of kvs (KStr k) = Some s"
    by (simp split: option.splits)
  then have "(KStr k, s) \<in> set kvs"
    by (rule map_of_SomeD)
  then have "size s < size_list (size_prod (\<lambda>x. 0) size) kvs"
    by (induction kvs) auto
  with NMap show ?thesis by simp
qed auto

lemma create_types_unfold:
  "create_types ttl ns n desc =
     (case desc of
        NMap kvs \<Rightarrow>
          (case map_of kvs (KStr ''enum'') of
             Some vs \<Rightarrow> Inr (EnumClass n (name ns) vs, register ns (EnumClass n (name ns) vs))
           | None \<Rightarrow>
               (case map_of kvs (KStr ''structure'') of
                  Some struct \<Rightarrow> build_struct ttl ns n struct
                | None \<Rightarrow> build_struct ttl ns n desc))
      | NStr s \<Rightarrow>
          if substring ''enum'' s \<or> substring ''structure'' s then Inl TypeError
          else build_struct ttl ns n desc
      | NSeq xs \<Rightarrow>
          if NStr ''enum'' \<in> set xs \<or> NStr ''structure'' \<in> set xs then Inl TypeError
          else build_struct ttl ns n desc
      | _ \<Rightarrow> Inl TypeError)"
proof (cases desc)
  case (NMap kvs)
  have "(KStr k \<in> fst ` set kvs) = (map_of kvs (KStr k) \<noteq> None)" for k
    by (simp add: map_of_eq_None_iff)
  with NMap show ?thesis
    by (auto simp: create_types.simps Let_def split: option.splits)
qed (simp_all add: create_types.simps)

lemma create_types_InrE [consumes 1, case_names enum wrapped plain]:
  assumes "create_types ttl ns n desc = Inr (t, ns')"
  obtains
    (enum) kvs vs where "desc = NMap kvs" and "map_of kvs (KStr ''enum'') = Some vs"
      and "t = EnumClass n (name ns) vs" and "ns' = register ns t"
  | (wrapped) kvs struct where "desc = NMap kvs" and "map_of kvs (KStr ''enum'') = None"
      and "map_of kvs (KStr ''structure'') = Some struct"
      and "build_struct ttl ns n struct = Inr (t, ns')"
  | (plain) "build_struct ttl ns n desc = Inr (t, ns')"
  using assms
  by (auto simp: create_types_unfold split: node.splits option.splits if_splits)

lemma create_fields_ConsE [consumes 1, case_names optional required]:
  assumes "create_fields ttl ns n ((k, v) # rest) flds = Inr (fs, ns')"
  obtains
    (optional) s t ns1 where "k = KStr s" and "s \<noteq> []" and "last s = CHR ''?''"
      and "create_types ttl ns (n @ camel_case ttl (butlast s)) v = Inr (t, ns1)"
      and "\<not> is_Optional t"
      and "create_fields ttl ns1 n rest (AList.update (butlast s) (Optional t) flds) = Inr (fs, ns')"
  | (required) s t ns1 where "k = KStr s" and "s \<noteq> []" and "last s \<noteq> CHR ''?''"
      and "create_types ttl ns (n @ camel_case ttl s) v = Inr (t, ns1)"
      and "create_fields ttl ns1 n rest (AList.update s t flds) = Inr (fs, ns')"
proof (cases k)
  case (KStr s)
  with assms show ?thesis
    by (auto simp: mk_Optional_def split: sum.splits if_splits intro: optional required)
qed (use assms in simp_all)

lemma builder_induct [case_names create str map seq int bool null nil cons]:
  fixes P :: "node \<Rightarrow> bool" and Q :: "node \<Rightarrow> bool" and R :: "(key \<times> node) list \<Rightarrow> bool"
  assumes "\<And>desc. Q desc \<Longrightarrow>
             (\<And>kvs struct. desc = NMap kvs \<Longrightarrow> map_of kvs (KStr ''structure'') = Some struct
                \<Longrightarrow> Q struct) \<Longrightarrow> P desc"
    and "\<And>s. Q (NStr s)"
    and "\<And>kvs. R kvs \<Longrightarrow> Q (NMap kvs)"
    and "\<And>xs. (\<And>x. xs = [x] \<Longrightarrow> P x) \<Longrightarrow> Q (NSeq xs)"
    and "\<And>i. Q (NInt i)"
    and "\<And>b. Q (NBool b)"
    and "Q NNull"
    and "R []"
    and "\<And>k v rest. P v \<Longrightarrow> R rest \<Longrightarrow> R ((k, v) # rest)"
  shows "P desc" and "Q struct" and "R kvs"
proof -
  have "(\<forall>d. size d = m \<longrightarrow> Q d \<and> P d) \<and>
        (\<forall>l. size_list (size_prod (\<lambda>x. 0) size) l = m \<longrightarrow> R l)" for m
  proof (induction m rule: less_induct)
    case (less m)
    have sub: "size d < m \<Longrightarrow> P d" for d
      using less.IH by blast
    have subl: "size_list (size_prod (\<lambda>x. 0) size) l < m \<Longrightarrow> R l" for l
      using less.IH by blast
    have subq: "size d < m \<Longrightarrow> Q d" for d
      using less.IH by blast
    have q: "Q d" if "size d = m" for d
    proof (cases d)
      case (NMap kvs)
      with that show ?thesis by (auto intro!: assms(3) subl)
    next
      case (NSeq xs)
      with that show ?thesis by (auto intro!: assms(4) sub)
    qed (simp_all add: assms)
    have p: "P d" if "size d = m" for d
    proof (rule assms(1))
      show "Q d" using that by (rule q)
    next
      fix kvs struct
      assume "d = NMap kvs" and "map_of kvs (KStr ''structure'') = Some struct"
      then have "py_getitem d ''structure'' = Inr struct" by simp
      then have "size struct < size d" by (rule py_getitem_size)
      with that show "Q struct" by (auto intro: subq)
    qed
    have r: "R l" if "size_list (size_prod (\<lambda>x. 0) size) l = m" for l
    proof (cases l)
      case Nil
      then show ?thesis by (simp add: assms)
    next
      case (Cons kv rest)
      obtain k v where kv: "kv = (k, v)" by (cases kv)
      from that Cons kv have "size v < m" and "size_list (size_prod (\<lambda>x. 0) size) rest < m"
        by auto
      then have "P v" and "R rest" by (auto intro: sub subl)
      then have "R ((k, v) # rest)" by (rule assms(9))
      with Cons kv show ?thesis by simp
    qed
    from p q r show ?case by blast
  qed
  then show "P desc" and "Q struct" and "R kvs" by blast+
qed

lemma name_register [simp]: "name (register ns res) = name ns"
  by (simp add: register_def)

lemma name_preserved:
  "create_types ttl ns n desc = Inr (t, ns') \<Longrightarrow> name ns' = name ns"
  "build_struct ttl ns n struct = Inr (t, ns') \<Longrightarrow> name ns' = name ns"
  "create_fields ttl ns n kvs flds = Inr (fs, ns') \<Longrightarrow> name ns' = name ns"
proof (induction desc and struct and kvs arbitrary: ns n t ns' and ns n t ns' and ns n flds fs ns'
    rule: builder_induct)
  case (create desc)
  from create.prems show ?case
    by (cases rule: create_types_InrE) (auto dest: create.IH)
next
  case (map kvs)
  from map.prems show ?case
    by (auto split: sum.splits simp: Let_def dest: map.IH)
next
  case (seq xs)
  from seq.prems show ?case
    by (auto split: sum.splits list.splits simp: Let_def dest: seq.IH)
next
  case (cons k v rest)
  from cons.prems show ?case
    by (cases rule: create_fields_ConsE) (metis cons.IH)+
qed (auto simp: Let_def split: if_splits)


section \<open>Evaluation and registration lemmas\<close>

lemmas build_eval = create_types_unfold Primitive_map_def register_def Let_def camel_case_def
  ascii_title_def is_cased_def is_lower_def is_upper_def to_upper_def to_lower_def
  lower_letters_def upper_letters_def resolve_refpath_def mk_Optional_def register_all_def
  update_all_def field_key_def field_type_def optional_key_def create_types_root_def

lemma primitive_no_marker:
  "s \<in> set Primitive_map \<Longrightarrow> \<not> substring ''enum'' s \<and> \<not> substring ''structure'' s"
  by (auto simp: Primitive_map_def)

lemma set_update_subset: "set (AList.update k v al) \<subseteq> insert (k, v) (set al)"
  by (induction al) auto

lemma registered_entries:
  "create_types ttl ns n desc = Inr (t, ns') \<Longrightarrow>
     \<forall>e \<in> set (types ns'). e \<in> set (types ns) \<or> (registrable (snd e) \<and> fst e = res_name (snd e))"
  "build_struct ttl ns n struct = Inr (t, ns') \<Longrightarrow>
     \<forall>e \<in> set (types ns'). e \<in> set (types ns) \<or> (registrable (snd e) \<and> fst e = res_name (snd e))"
  "create_fields ttl ns n kvs flds = Inr (fs, ns') \<Longrightarrow>
     \<forall>e \<in> set (types ns'). e \<in> set (types ns) \<or> (registrable (snd e) \<and> fst e = res_name (snd e))"
proof (induction desc and struct and kvs arbitrary: ns n t ns' and ns n t ns' and ns n flds fs ns'
    rule: builder_induct)
  case (create desc)
  from create.prems show ?case
  proof (cases rule: create_types_InrE)
    case (enum kvs vs)
    then show ?thesis
      using set_update_subset[of n t "types ns"] by (auto simp: register_def)
  qed (auto dest: create.IH)
next
  case (str s)
  from str.prems show ?case
    using set_update_subset[of s "Primitive s" "types ns"]
    by (auto simp: register_def Let_def split: if_splits)
next
  case (map kvs)
  from map.prems obtain flds ns1 where
    a: "create_fields ttl ns n kvs [] = Inr (flds, ns1)" and
    t: "t = Object n (name ns1) flds" and b: "ns' = register ns1 t"
    by (auto split: sum.splits simp: Let_def)
  from map.IH[OF a] b t show ?case
    using set_update_subset[of n t "types ns1"] by (auto simp: register_def)
next
  case (seq xs)
  from seq.prems obtain x item ns1 where xs: "xs = [x]" and
    a: "create_types ttl ns (n @ ''Item'') x = Inr (item, ns1)" and
    t: "t = Array n (name ns) item" and b: "ns' = register ns1 t"
    by (auto split: sum.splits list.splits simp: Let_def)
  from seq.IH[OF xs a] b t show ?case
    using set_update_subset[of n t "types ns1"] by (auto simp: register_def)
next
  case (cons k v rest)
  from cons.prems show ?case
    by (cases rule: create_fields_ConsE) (use cons.IH in blast)+
qed auto

section \<open>The outcome does not depend on the table\<close>

lemma result_not_Optional:
  "create_types ttl ns n desc = Inr (t, ns') \<Longrightarrow> \<not> is_Optional t"
proof -
  have b: "\<not> is_Optional t" if "build_struct ttl ns n struct = Inr (t, ns')" for struct
    using that
    by (cases struct) (auto simp: Let_def split: if_splits sum.splits list.splits prod.splits)
  assume "create_types ttl ns n desc = Inr (t, ns')"
  then show ?thesis
    by (cases rule: create_types_InrE) (auto dest: b)
qed

lemma create_fields_Cons:
  "create_fields ttl ns n ((k, v) # rest) flds =
     (case key_last k of
        Inl e \<Rightarrow> Inl e
      | Inr c \<Rightarrow>
          (case create_types ttl ns (n @ camel_case ttl (field_key k)) v of
             Inl e \<Rightarrow> Inl e
           | Inr (t, ns1) \<Rightarrow>
               create_fields ttl ns1 n rest (AList.update (field_key k) (field_type k t) flds)))"
proof (cases k)
  case (KStr s)
  then show ?thesis
    by (auto simp: field_key_def field_type_def optional_key_def mk_Optional_def
        split: sum.splits dest: result_not_Optional)
qed simp_all

lemma register_all_simps [simp]:
  "register_all ns [] = ns"
  "register_all ns (r # rs) = register_all (register ns r) rs"
  "register_all ns (rs @ rs') = register_all (register_all ns rs) rs'"
  "name (register_all ns rs) = name ns"
proof -
  show "name (register_all ns rs) = name ns"
    unfolding register_all_def by (induction rs arbitrary: ns) simp_all
qed (simp_all add: register_all_def)

lemma update_all_simps [simp]:
  "update_all flds [] = flds"
  "update_all flds ((k, t) # us) = update_all (AList.update k t flds) us"
  by (simp_all add: update_all_def)

lemma create_types_dispatch:
  "(\<exists>e. \<forall>ns. create_types ttl ns n desc = Inl e)
   \<or> (\<exists>vs. \<forall>ns. create_types ttl ns n desc
          = Inr (EnumClass n (name ns) vs, register ns (EnumClass n (name ns) vs)))
   \<or> (\<forall>ns. create_types ttl ns n desc = build_struct ttl ns n desc)
   \<or> (\<exists>kvs struct. desc = NMap kvs \<and> map_of kvs (KStr ''structure'') = Some struct
          \<and> (\<forall>ns. create_types ttl ns n desc = build_struct ttl ns n struct))"
  by (cases desc) (auto simp: create_types_unfold split: option.splits)

lemma build_log:
  "(\<exists>e. \<forall>ns. name ns = nm \<longrightarrow> create_types ttl ns n desc = Inl e)
     \<or> (\<exists>t rs. \<forall>ns. name ns = nm \<longrightarrow> create_types ttl ns n desc = Inr (t, register_all ns rs))"
  "(\<exists>e. \<forall>ns. name ns = nm \<longrightarrow> build_struct ttl ns n struct = Inl e)
     \<or> (\<exists>t rs. \<forall>ns. name ns = nm \<longrightarrow> build_struct ttl ns n struct = Inr (t, register_all ns rs))"
  "(\<exists>e. \<forall>ns flds. name ns = nm \<longrightarrow> create_fields ttl ns n kvs flds = Inl e)
     \<or> (\<exists>us rs. \<forall>ns flds. name ns = nm \<longrightarrow>
            create_fields ttl ns n kvs flds = Inr (update_all flds us, register_all ns rs))"
proof (induction desc and struct and kvs arbitrary: n nm and n nm and n nm rule: builder_induct)
  case (create desc)
  consider (err) e where "\<forall>ns. create_types ttl ns n desc = Inl e"
    | (enum) vs where "\<forall>ns. create_types ttl ns n desc
          = Inr (EnumClass n (name ns) vs, register ns (EnumClass n (name ns) vs))"
    | (plain) "\<forall>ns. create_types ttl ns n desc = build_struct ttl ns n desc"
    | (wrapped) kvs struct where "desc = NMap kvs" "map_of kvs (KStr ''structure'') = Some struct"
        "\<forall>ns. create_types ttl ns n desc = build_struct ttl ns n struct"
    using create_types_dispatch[of ttl n desc] by blast
  then show ?case
  proof cases
    case err
    then show ?thesis by auto
  next
    case enum
    then have "\<forall>ns. name ns = nm \<longrightarrow>
        create_types ttl ns n desc = Inr (EnumClass n nm vs, register_all ns [EnumClass n nm vs])"
      by simp
    then show ?thesis by blast
  next
    case plain
    with create.IH(1)[of nm n] show ?thesis by simp
  next
    case wrapped
    with create.IH(2)[of kvs struct nm n] show ?thesis by simp
  qed
next
  case (str s)
  show ?case
  proof (cases "s \<in> set Primitive_map")
    case True
    then have "\<forall>ns. name ns = nm \<longrightarrow>
        build_struct ttl ns n (NStr s) = Inr (Primitive s, register_all ns [Primitive s])"
      by (simp add: Let_def)
    then show ?thesis by blast
  next
    case False
    then have "\<forall>ns. name ns = nm \<longrightarrow>
        build_struct ttl ns n (NStr s) =
          Inr (case_prod Reference (resolve_refpath \<lparr>name = nm, types = []\<rparr> s), register_all ns [])"
      by (simp add: resolve_refpath_def)
    then show ?thesis by blast
  qed
next
  case (map kvs)
  from map.IH[of nm n] show ?case
  proof (elim disjE exE)
    fix e assume "\<forall>ns flds. name ns = nm \<longrightarrow> create_fields ttl ns n kvs flds = Inl e"
    then have "\<forall>ns. name ns = nm \<longrightarrow> build_struct ttl ns n (NMap kvs) = Inl e" by simp
    then show ?thesis by blast
  next
    fix us rs
    assume "\<forall>ns flds. name ns = nm \<longrightarrow>
      create_fields ttl ns n kvs flds = Inr (update_all flds us, register_all ns rs)"
    then have "\<forall>ns. name ns = nm \<longrightarrow> build_struct ttl ns n (NMap kvs) =
        Inr (Object n nm (update_all [] us), register_all ns (rs @ [Object n nm (update_all [] us)]))"
      by (simp add: Let_def)
    then show ?thesis by blast
  qed
next
  case (seq xs)
  show ?case
  proof (cases "\<exists>x. xs = [x]")
    case False
    then have "\<forall>ns. name ns = nm \<longrightarrow> build_struct ttl ns n (NSeq xs) = Inl AssertionError"
      by (auto split: list.splits)
    then show ?thesis by blast
  next
    case True
    then obtain x where x: "xs = [x]" by blast
    from seq.IH[OF x, of nm "n @ ''Item''"] show ?thesis
    proof (elim disjE exE)
      fix e assume "\<forall>ns. name ns = nm \<longrightarrow> create_types ttl ns (n @ ''Item'') x = Inl e"
      with x have "\<forall>ns. name ns = nm \<longrightarrow> build_struct ttl ns n (NSeq xs) = Inl e" by simp
      then show ?thesis by blast
    next
      fix t rs
      assume "\<forall>ns. name ns = nm \<longrightarrow>
        create_types ttl ns (n @ ''Item'') x = Inr (t, register_all ns rs)"
      with x have "\<forall>ns. name ns = nm \<longrightarrow> build_struct ttl ns n (NSeq xs) =
          Inr (Array n nm t, register_all ns (rs @ [Array n nm t]))"
        by (simp add: Let_def)
      then show ?thesis by blast
    qed
  qed
next
  case (cons k v rest)
  show ?case
  proof (cases "key_last k")
    case (Inl e)
    then have "\<forall>ns flds. name ns = nm \<longrightarrow> create_fields ttl ns n ((k, v) # rest) flds = Inl e"
      by simp
    then show ?thesis by blast
  next
    case (Inr c)
    from cons.IH(1)[of nm "n @ camel_case ttl (field_key k)"] show ?thesis
    proof (elim disjE exE)
      fix e
      assume "\<forall>ns. name ns = nm \<longrightarrow> create_types ttl ns (n @ camel_case ttl (field_key k)) v = Inl e"
      with Inr have "\<forall>ns flds. name ns = nm \<longrightarrow>
          create_fields ttl ns n ((k, v) # rest) flds = Inl e"
        by (simp add: create_fields_Cons del: create_fields.simps)
      then show ?thesis by blast
    next
      fix t rs1
      assume a: "\<forall>ns. name ns = nm \<longrightarrow>
        create_types ttl ns (n @ camel_case ttl (field_key k)) v = Inr (t, register_all ns rs1)"
      from cons.IH(2)[of nm n] show ?thesis
      proof (elim disjE exE)
        fix e
        assume "\<forall>ns flds. name ns = nm \<longrightarrow> create_fields ttl ns n rest flds = Inl e"
        with Inr a have "\<forall>ns flds. name ns = nm \<longrightarrow>
            create_fields ttl ns n ((k, v) # rest) flds = Inl e"
          by (simp add: create_fields_Cons del: create_fields.simps)
        then show ?thesis by blast
      next
        fix us rs2
        assume "\<forall>ns flds. name ns = nm \<longrightarrow>
          create_fields ttl ns n rest flds = Inr (update_all flds us, register_all ns rs2)"
        with Inr a have "\<forall>ns flds. name ns = nm \<longrightarrow>
            create_fields ttl ns n ((k, v) # rest) flds =
              Inr (update_all flds ((field_key k, field_type k t) # us),
                   register_all ns (rs1 @ rs2))"
          by (simp add: create_fields_Cons del: create_fields.simps)
        then show ?thesis by blast
      qed
    qed
  qed
next
  case nil
  have "\<forall>ns flds. name ns = nm \<longrightarrow>
      create_fields ttl ns n [] flds = Inr (update_all flds [], register_all ns [])"
    by simp
  then show ?case by blast
qed auto

lemma build_same_name:
  assumes "name ns1 = name ns2"
  shows "(\<exists>e. create_types ttl ns1 n desc = Inl e \<and> create_types ttl ns2 n desc = Inl e)
     \<or> (\<exists>t rs. create_types ttl ns1 n desc = Inr (t, register_all ns1 rs)
            \<and> create_types ttl ns2 n desc = Inr (t, register_all ns2 rs))"
  using build_log(1)[of "name ns1" ttl n desc] assms by metis

lemma create_all_log:
  "(\<exists>e. \<forall>ns. name ns = nm \<longrightarrow> create_all ttl ns tys = Inl e)
     \<or> (\<exists>rs. \<forall>ns. name ns = nm \<longrightarrow> create_all ttl ns tys = Inr (register_all ns rs))"
proof (induction tys)
  case Nil
  have "\<forall>ns. name ns = nm \<longrightarrow> create_all ttl ns [] = Inr (register_all ns [])" by simp
  then show ?case by blast
next
  case (Cons kv tys)
  obtain k v where kv: "kv = (k, v)" by (cases kv)
  from build_log(1)[of nm ttl k v] show ?case
  proof (elim disjE exE)
    fix e assume "\<forall>ns. name ns = nm \<longrightarrow> create_types ttl ns k v = Inl e"
    with kv have "\<forall>ns. name ns = nm \<longrightarrow> create_all ttl ns (kv # tys) = Inl e" by simp
    then show ?thesis by blast
  next
    fix t rs1
    assume a: "\<forall>ns. name ns = nm \<longrightarrow> create_types ttl ns k v = Inr (t, register_all ns rs1)"
    from Cons.IH show ?thesis
    proof (elim disjE exE)
      fix e assume "\<forall>ns. name ns = nm \<longrightarrow> create_all ttl ns tys = Inl e"
      with kv a have "\<forall>ns. name ns = nm \<longrightarrow> create_all ttl ns (kv # tys) = Inl e" by simp
      then show ?thesis by blast
    next
      fix rs2 assume "\<forall>ns. name ns = nm \<longrightarrow> create_all ttl ns tys = Inr (register_all ns rs2)"
      with kv a have "\<forall>ns. name ns = nm \<longrightarrow>
          create_all ttl ns (kv # tys) = Inr (register_all ns (rs1 @ rs2))"
        by simp
      then show ?thesis by blast
    qed
  qed
qed

section \<open>Bare strings and what gets registered\<close>

text \<open>
  Claim C1, as the code has it. A bare string naming one of the four primitive keywords
  yields a \<open>Primitive\<close>, and the builder registers it in the type table under the keyword:
  the primitive branch falls through to the registration at the end of \<open>create_types\<close>.
  A bare string that is not a keyword and contains neither \<open>enum\<close> nor \<open>structure\<close>
  yields a \<open>Reference\<close> made by \<open>resolve_refpath\<close> and leaves the table as it was. Every
  entry a build adds to the table is a \<open>Primitive\<close>, \<open>Object\<close>, \<open>Array\<close> or \<open>EnumClass\<close>
  stored under its own name: a \<open>Reference\<close> or an \<open>Optional\<close> is never registered.
\<close>

theorem bare_string_build:
  "(s \<in> set Primitive_map \<longrightarrow>
      create_types ttl ns n (NStr s) =
        Inr (Primitive s, ns\<lparr>types := AList.update s (Primitive s) (types ns)\<rparr>))
   \<and> (s' \<notin> set Primitive_map \<and> \<not> substring ''enum'' s' \<and> \<not> substring ''structure'' s' \<longrightarrow>
      create_types ttl ns n (NStr s') = Inr (case_prod Reference (resolve_refpath ns s'), ns))
   \<and> (create_types ttl ns n desc = Inr (t, ns') \<longrightarrow>
      (\<forall>e \<in> set (types ns').
          e \<in> set (types ns) \<or> (registrable (snd e) \<and> fst e = res_name (snd e))))"
proof (intro conjI impI)
  assume "s \<in> set Primitive_map"
  then show "create_types ttl ns n (NStr s) =
      Inr (Primitive s, ns\<lparr>types := AList.update s (Primitive s) (types ns)\<rparr>)"
    using primitive_no_marker[of s] by (simp add: create_types_unfold register_def Let_def)
next
  assume "s' \<notin> set Primitive_map \<and> \<not> substring ''enum'' s' \<and> \<not> substring ''structure'' s'"
  then show "create_types ttl ns n (NStr s') = Inr (case_prod Reference (resolve_refpath ns s'), ns)"
    by (simp add: create_types_unfold)
next
  assume "create_types ttl ns n desc = Inr (t, ns')"
  then show "\<forall>e \<in> set (types ns').
      e \<in> set (types ns) \<or> (registrable (snd e) \<and> fst e = res_name (snd e))"
    by (rule registered_entries(1))
qed

theorem bare_string_build_witness:
  "(''float'' \<in> set Primitive_map \<and>
      create_types ascii_title \<lparr>name = ''geo'', types = []\<rparr> ''PointX'' (NStr ''float'') =
        Inr (Primitive ''float'', \<lparr>name = ''geo'', types = [(''float'', Primitive ''float'')]\<rparr>))
   \<and> (''pkg.b.T'' \<notin> set Primitive_map \<and> \<not> substring ''enum'' ''pkg.b.T''
        \<and> \<not> substring ''structure'' ''pkg.b.T'' \<and>
      create_types ascii_title \<lparr>name = ''geo'', types = []\<rparr> ''PointX'' (NStr ''pkg.b.T'') =
        Inr (Reference ''T'' ''pkg.b'', \<lparr>name = ''geo'', types = []\<rparr>))
   \<and> (create_types ascii_title \<lparr>name = ''geo'', types = []\<rparr> ''PointX'' (NSeq [NStr ''T'']) =
        Inr (Array ''PointX'' ''geo'' (Reference ''T'' ''geo''),
             \<lparr>name = ''geo'',
                types = [(''PointX'', Array ''PointX'' ''geo'' (Reference ''T'' ''geo''))]\<rparr>) \<and>
      registrable (Array ''PointX'' ''geo'' (Reference ''T'' ''geo'')) \<and>
      ''PointX'' = res_name (Array ''PointX'' ''geo'' (Reference ''T'' ''geo'')))"
  using bare_string_build [where ttl = ascii_title, of "''float''" "\<lparr>name = ''geo'', types = []\<rparr>" "''PointX''"
      "''pkg.b.T''" "NSeq [NStr ''T'']" "Array ''PointX'' ''geo'' (Reference ''T'' ''geo'')"
      "\<lparr>name = ''geo'',
         types = [(''PointX'', Array ''PointX'' ''geo'' (Reference ''T'' ''geo''))]\<rparr>"]
  by (simp add: create_types_unfold Primitive_map_def register_def resolve_refpath_def Let_def)

text \<open>
  Claim C1 as stated says that a primitive inserts nothing into the type table. Building the
  node \<open>float\<close> in an empty namespace leaves the table with the entry \<open>float\<close>.
\<close>

theorem primitive_registered_counterexample:
  "create_types ascii_title \<lparr>name = ''geo'', types = []\<rparr> ''PointX'' (NStr ''float'') =
     Inr (Primitive ''float'', \<lparr>name = ''geo'', types = [(''float'', Primitive ''float'')]\<rparr>)"
  by (simp add: create_types_unfold Primitive_map_def register_def Let_def)


section \<open>Sequences\<close>

lemma create_types_singleton:
  "create_types ttl ns n (NSeq [x]) =
     (case create_types ttl ns (n @ ''Item'') x of
        Inl e \<Rightarrow> Inl e
      | Inr (item, ns') \<Rightarrow>
          Inr (Array n (name ns) item,
               ns'\<lparr>types := AList.update n (Array n (name ns) item) (types ns')\<rparr>))"
proof (cases "x = NStr ''enum'' \<or> x = NStr ''structure''")
  case True
  then show ?thesis by (auto simp: create_types_unfold)
next
  case False
  then have "create_types ttl ns n (NSeq [x]) = build_struct ttl ns n (NSeq [x])"
    by (auto simp: create_types_unfold)
  then show ?thesis
    by (auto simp: Let_def register_def split: sum.splits dest: name_preserved(1))
qed

text \<open>
  Claim C5, as the code has it. A sequence node with no element or with more than one
  element fails. A sequence node with exactly one element builds that element under the
  name \<open>n\<close> followed by \<open>Item\<close>; when this build fails the sequence fails with the same
  error, and otherwise the result is an \<open>Array\<close> named \<open>n\<close> wrapping the item result,
  registered under \<open>n\<close> in the table the item build returned.
\<close>

theorem sequence_build:
  "(length xs \<noteq> 1 \<longrightarrow> (\<exists>e. create_types ttl ns n (NSeq xs) = Inl e))
   \<and> create_types ttl ns n (NSeq [x]) =
     (case create_types ttl ns (n @ ''Item'') x of
        Inl e \<Rightarrow> Inl e
      | Inr (item, ns') \<Rightarrow>
          Inr (Array n (name ns) item,
               ns'\<lparr>types := AList.update n (Array n (name ns) item) (types ns')\<rparr>))"
proof (intro conjI impI)
  assume "length xs \<noteq> 1"
  then show "\<exists>e. create_types ttl ns n (NSeq xs) = Inl e"
    by (cases xs rule: list.exhaust; cases "tl xs") (auto simp: create_types_unfold)
next
  show "create_types ttl ns n (NSeq [x]) =
     (case create_types ttl ns (n @ ''Item'') x of
        Inl e \<Rightarrow> Inl e
      | Inr (item, ns') \<Rightarrow>
          Inr (Array n (name ns) item,
               ns'\<lparr>types := AList.update n (Array n (name ns) item) (types ns')\<rparr>))"
    by (rule create_types_singleton)
qed

theorem sequence_build_witness:
  "length [NStr ''int'', NStr ''str''] \<noteq> 1
   \<and> (\<exists>e. create_types ascii_title \<lparr>name = ''geo'', types = []\<rparr> ''Path'' (NSeq [NStr ''int'', NStr ''str''])
          = Inl e)
   \<and> create_types ascii_title \<lparr>name = ''geo'', types = []\<rparr> ''Path'' (NSeq [NStr ''Point'']) =
       Inr (Array ''Path'' ''geo'' (Reference ''Point'' ''geo''),
            \<lparr>name = ''geo'',
               types = [(''Path'', Array ''Path'' ''geo'' (Reference ''Point'' ''geo''))]\<rparr>)"
  using sequence_build [where ttl = ascii_title, of "[NStr ''int'', NStr ''str'']" "\<lparr>name = ''geo'', types = []\<rparr>"
      "''Path''" "NStr ''Point''"]
  by (simp add: create_types_unfold Primitive_map_def resolve_refpath_def)


text \<open>
  Claim C5 as stated says that every sequence with exactly one element builds. The sequence
  whose only element is the empty sequence has one element and fails.
\<close>

theorem sequence_item_fails_counterexample:
  "length [NSeq []] = 1
   \<and> create_types ascii_title \<lparr>name = ''geo'', types = []\<rparr> ''Path'' (NSeq [NSeq []]) = Inl AssertionError"
  by (simp add: create_types_unfold)

section \<open>Unsupported nodes\<close>

text \<open>
  Claim C8. A node that is neither a string, nor a mapping, nor a sequence (an integer, a
  boolean, null) makes the build fail: the test \<open>"enum" in struct\<close> raises \<open>TypeError\<close>,
  and no type definition is returned. The same holds one level down: a \<open>structure\<close> wrapper
  around such a node fails at the registration, where \<open>res\<close> was never bound.
\<close>

theorem unsupported_node_fails:
  "(\<not> recognized desc \<longrightarrow> create_types ttl ns n desc = Inl TypeError)
   \<and> (map_of kvs (KStr ''enum'') = None \<and> map_of kvs (KStr ''structure'') = Some inner
        \<and> \<not> recognized inner \<longrightarrow> create_types ttl ns n (NMap kvs) = Inl UnboundLocalError)"
proof (intro conjI impI)
  assume "\<not> recognized desc"
  then show "create_types ttl ns n desc = Inl TypeError"
    by (cases desc) (simp_all add: create_types_unfold)
next
  assume "map_of kvs (KStr ''enum'') = None \<and> map_of kvs (KStr ''structure'') = Some inner
    \<and> \<not> recognized inner"
  then show "create_types ttl ns n (NMap kvs) = Inl UnboundLocalError"
    by (cases inner) (simp_all add: create_types_unfold)
qed

theorem unsupported_node_fails_witness:
  "\<not> recognized (NInt 5) \<and> create_types ascii_title \<lparr>name = ''geo'', types = []\<rparr> ''A'' (NInt 5) = Inl TypeError
   \<and> map_of [(KStr ''structure'', NBool True)] (KStr ''enum'') = None
   \<and> map_of [(KStr ''structure'', NBool True)] (KStr ''structure'') = Some (NBool True)
   \<and> \<not> recognized (NBool True)
   \<and> create_types ascii_title \<lparr>name = ''geo'', types = []\<rparr> ''A'' (NMap [(KStr ''structure'', NBool True)])
       = Inl UnboundLocalError"
  using unsupported_node_fails [where ttl = ascii_title, of "NInt 5" "\<lparr>name = ''geo'', types = []\<rparr>" "''A''"
      "[(KStr ''structure'', NBool True)]" "NBool True"]
  by simp


section \<open>The reference resolver\<close>

lemma split_not_Nil: "split sep s \<noteq> []"
  by (induction s) (auto split: list.splits)

lemma split_no_sep: "sep \<notin> set s \<Longrightarrow> split sep s = [s]"
  by (induction s) auto

lemma split_append_last:
  "sep \<notin> set suf \<Longrightarrow> split sep (pre @ sep # suf) = split sep pre @ [suf]"
proof (induction pre)
  case Nil
  then show ?case by (simp add: split_no_sep)
next
  case (Cons c cs)
  obtain p ps where "split sep cs = p # ps"
    using split_not_Nil[of sep cs] by (cases "split sep cs") auto
  with Cons show ?case by simp
qed

lemma join_Cons_Cons: "ps \<noteq> [] \<Longrightarrow> join sep ((c # p) # ps) = c # join sep (p # ps)"
  by (cases ps) auto

lemma join_split: "join [sep] (split sep s) = s"
proof (induction s)
  case Nil
  then show ?case by simp
next
  case (Cons c cs)
  obtain p ps where ps: "split sep cs = p # ps"
    using split_not_Nil[of sep cs] by (cases "split sep cs") auto
  show ?case
  proof (cases "c = sep")
    case True
    with Cons ps show ?thesis by simp
  next
    case False
    with Cons ps show ?thesis by (cases ps) auto
  qed
qed

text \<open>
  Claim C6. \<open>resolve_refpath\<close> reads only the name of the namespace it is given. A path
  without a dot resolves to the path itself in the current namespace; a path \<open>pre.suf\<close>
  whose last component \<open>suf\<close> has no dot resolves to \<open>suf\<close> in the namespace \<open>pre\<close>. In
  namespace \<open>pkg.a\<close> the path \<open>T\<close> resolves to \<open>(T, pkg.a)\<close> and the path \<open>pkg.b.T\<close>
  to \<open>(T, pkg.b)\<close>.
\<close>

theorem resolve_refpath_spec:
  "(CHR ''.'' \<notin> set path \<longrightarrow> resolve_refpath ns path = (path, name ns))
   \<and> (CHR ''.'' \<notin> set suf \<longrightarrow> resolve_refpath ns (pre @ ''.'' @ suf) = (suf, pre))
   \<and> (name ns = name ns2 \<longrightarrow> resolve_refpath ns path = resolve_refpath ns2 path)
   \<and> resolve_refpath \<lparr>name = ''pkg.a'', types = tys\<rparr> ''T'' = (''T'', ''pkg.a'')
   \<and> resolve_refpath \<lparr>name = ''pkg.a'', types = tys\<rparr> ''pkg.b.T'' = (''T'', ''pkg.b'')"
proof (intro conjI impI)
  assume "CHR ''.'' \<notin> set suf"
  then have "split (CHR ''.'') (pre @ CHR ''.'' # suf) = split (CHR ''.'') pre @ [suf]"
    by (rule split_append_last)
  then show "resolve_refpath ns (pre @ ''.'' @ suf) = (suf, pre)"
    by (simp add: resolve_refpath_def join_split)
qed (simp_all add: resolve_refpath_def)

theorem resolve_refpath_spec_witness:
  "CHR ''.'' \<notin> set ''Point'' \<and> resolve_refpath \<lparr>name = ''geo'', types = []\<rparr> ''Point'' = (''Point'', ''geo'')
   \<and> CHR ''.'' \<notin> set ''T'' \<and> resolve_refpath \<lparr>name = ''geo'', types = []\<rparr> (''pkg.b'' @ ''.'' @ ''T'') = (''T'', ''pkg.b'')
   \<and> name \<lparr>name = ''geo'', types = []\<rparr> = name \<lparr>name = ''geo'', types = [(''A'', Primitive ''int'')]\<rparr>
   \<and> resolve_refpath \<lparr>name = ''geo'', types = []\<rparr> ''Point'' =
       resolve_refpath \<lparr>name = ''geo'', types = [(''A'', Primitive ''int'')]\<rparr> ''Point''"
  using resolve_refpath_spec [of "''Point''" "\<lparr>name = ''geo'', types = []\<rparr>" "''T''" "''pkg.b''"
      "\<lparr>name = ''geo'', types = [(''A'', Primitive ''int'')]\<rparr>" "[]"]
  by (simp add: resolve_refpath_def)

section \<open>The structure wrapper\<close>

lemma create_types_no_marker:
  "py_in ''enum'' d = Inr False \<Longrightarrow> py_in ''structure'' d = Inr False
    \<Longrightarrow> create_types ttl ns n d = build_struct ttl ns n d"
  by (simp add: create_types.simps)

text \<open>
  Claim C2, as the code has it. A mapping with the key \<open>structure\<close> and without the key
  \<open>enum\<close> is unwrapped one level, and the build goes on with the inner node under the same
  name and namespace, testing it only for string, mapping and sequence: the inner node is
  not looked at for \<open>enum\<close> or \<open>structure\<close> again. When the inner node carries neither
  marker the outcome is that of building the inner node itself, and when the inner node is
  a mapping, whatever its keys, a result is an \<open>Object\<close>.
\<close>

theorem structure_unwrap:
  "map_of kvs (KStr ''enum'') = None \<and> map_of kvs (KStr ''structure'') = Some inner \<longrightarrow>
     create_types ttl ns n (NMap kvs) = build_struct ttl ns n inner
     \<and> (py_in ''enum'' inner = Inr False \<and> py_in ''structure'' inner = Inr False \<longrightarrow>
          create_types ttl ns n (NMap kvs) = create_types ttl ns n inner)
     \<and> (\<forall>ikvs t ns'. inner = NMap ikvs \<and> create_types ttl ns n (NMap kvs) = Inr (t, ns') \<longrightarrow>
          (\<exists>flds. t = Object n (name ns) flds))"
proof (intro impI conjI allI)
  assume a: "map_of kvs (KStr ''enum'') = None \<and> map_of kvs (KStr ''structure'') = Some inner"
  then show u: "create_types ttl ns n (NMap kvs) = build_struct ttl ns n inner"
    by (simp add: create_types_unfold)
  show "create_types ttl ns n (NMap kvs) = create_types ttl ns n inner"
    if "py_in ''enum'' inner = Inr False \<and> py_in ''structure'' inner = Inr False"
    using that u by (simp add: create_types_no_marker)
  show "\<exists>flds. t = Object n (name ns) flds"
    if "inner = NMap ikvs \<and> create_types ttl ns n (NMap kvs) = Inr (t, ns')" for ikvs t ns'
    using that u by (auto simp: Let_def split: sum.splits dest: name_preserved(3))
qed

theorem structure_unwrap_witness:
  "map_of [(KStr ''structure'', NMap [(KStr ''x'', NStr ''int'')])] (KStr ''enum'') = None
   \<and> map_of [(KStr ''structure'', NMap [(KStr ''x'', NStr ''int'')])] (KStr ''structure'')
       = Some (NMap [(KStr ''x'', NStr ''int'')])
   \<and> py_in ''enum'' (NMap [(KStr ''x'', NStr ''int'')]) = Inr False
   \<and> py_in ''structure'' (NMap [(KStr ''x'', NStr ''int'')]) = Inr False
   \<and> create_types ascii_title \<lparr>name = ''geo'', types = []\<rparr> ''P''
        (NMap [(KStr ''structure'', NMap [(KStr ''x'', NStr ''int'')])])
      = create_types ascii_title \<lparr>name = ''geo'', types = []\<rparr> ''P'' (NMap [(KStr ''x'', NStr ''int'')])
   \<and> create_types ascii_title \<lparr>name = ''geo'', types = []\<rparr> ''P''
        (NMap [(KStr ''structure'', NMap [(KStr ''x'', NStr ''int'')])])
      = Inr (Object ''P'' ''geo'' [(''x'', Primitive ''int'')],
             \<lparr>name = ''geo'',
                types = [(''int'', Primitive ''int''),
                         (''P'', Object ''P'' ''geo'' [(''x'', Primitive ''int'')])]\<rparr>)"
  using structure_unwrap [where ttl = ascii_title, of "[(KStr ''structure'', NMap [(KStr ''x'', NStr ''int'')])]"
      "NMap [(KStr ''x'', NStr ''int'')]" "\<lparr>name = ''geo'', types = []\<rparr>" "''P''"]
  by (simp add: build_eval)

text \<open>
  Claim C2 as stated says that a structure wrapper around a mapping with the key \<open>enum\<close>
  yields an \<open>EnumClass\<close>. The wrapper around \<open>{enum: [red]}\<close> yields an \<open>Object\<close> with a
  field \<open>enum\<close>, while the inner node alone yields the \<open>EnumClass\<close>.
\<close>

theorem structure_enum_counterexample:
  "create_types ascii_title \<lparr>name = ''geo'', types = []\<rparr> ''C''
     (NMap [(KStr ''structure'', NMap [(KStr ''enum'', NSeq [NStr ''red''])])])
   = Inr (Object ''C'' ''geo'' [(''enum'', Array ''CEnum'' ''geo'' (Reference ''red'' ''geo''))],
          \<lparr>name = ''geo'',
             types = [(''CEnum'', Array ''CEnum'' ''geo'' (Reference ''red'' ''geo'')),
                      (''C'', Object ''C'' ''geo''
                         [(''enum'', Array ''CEnum'' ''geo'' (Reference ''red'' ''geo''))])]\<rparr>)
   \<and> create_types ascii_title \<lparr>name = ''geo'', types = []\<rparr> ''C'' (NMap [(KStr ''enum'', NSeq [NStr ''red''])])
   = Inr (EnumClass ''C'' ''geo'' (NSeq [NStr ''red'']),
          \<lparr>name = ''geo'', types = [(''C'', EnumClass ''C'' ''geo'' (NSeq [NStr ''red'']))]\<rparr>)"
  by (simp add: build_eval)

section \<open>Registration under a name that is taken\<close>

lemma result_registered:
  assumes "create_types ttl ns n desc = Inr (t, ns')" and "registrable t"
  shows "\<exists>ns1. ns' = register ns1 t"
proof -
  have b: "\<exists>ns1. ns' = register ns1 t" if "build_struct ttl ns n struct = Inr (t, ns')" for struct
    using that assms(2)
    by (cases struct) (auto simp: Let_def split: if_splits sum.splits list.splits prod.splits)
  from assms(1) show ?thesis
    by (cases rule: create_types_InrE) (auto dest: b)
qed

lemma register_present:
  "map_of (types (register ns res)) (res_name res) = Some res"
  "res_name res \<in> fst ` set (types ns) \<Longrightarrow>
     map fst (types (register ns res)) = map fst (types ns)"
  by (simp_all add: register_def AList.update_conv' AList.update_keys)

text \<open>
  Claim C7. Registering a definition under a name the table already holds replaces the
  earlier entry where it stands: the table maps the name to the later definition and gains
  no key. Every named result of a build is in the returned table under its own name,
  whether the name was taken or not, and whether a build fails does not depend on what the
  table holds, so a name that is taken raises nothing.
\<close>

theorem registration_overwrites:
  "(map_of (types ns) (res_name res) = Some old \<longrightarrow>
      map_of (types (register ns res)) (res_name res) = Some res
      \<and> map fst (types (register ns res)) = map fst (types ns))
   \<and> (create_types ttl ns n desc = Inr (t, ns') \<and> registrable t \<longrightarrow>
      map_of (types ns') (res_name t) = Some t)
   \<and> isl (create_types ttl (ns\<lparr>types := tys\<rparr>) n desc) = isl (create_types ttl ns n desc)"
proof (intro conjI impI)
  assume "map_of (types ns) (res_name res) = Some old"
  then have "res_name res \<in> fst ` set (types ns)"
    by (metis domI dom_map_of_conv_image_fst)
  then show "map fst (types (register ns res)) = map fst (types ns)"
    by (rule register_present(2))
next
  assume "create_types ttl ns n desc = Inr (t, ns') \<and> registrable t"
  then obtain ns1 where "ns' = register ns1 t"
    using result_registered by blast
  then show "map_of (types ns') (res_name t) = Some t"
    by (simp add: register_present(1))
next
  have "name (ns\<lparr>types := tys\<rparr>) = name ns" by simp
  from build_same_name[OF this, of ttl n desc]
  show "isl (create_types ttl (ns\<lparr>types := tys\<rparr>) n desc) = isl (create_types ttl ns n desc)"
    by auto
qed (simp add: register_present(1))

theorem registration_overwrites_witness:
  "map_of [(''AItem'', EnumClass ''AItem'' ''geo'' (NSeq [NStr ''x'']))]
       (res_name (Object ''AItem'' ''geo'' [(''y'', Primitive ''int'')]))
     = Some (EnumClass ''AItem'' ''geo'' (NSeq [NStr ''x'']))
   \<and> create_types ascii_title \<lparr>name = ''geo'',
                     types = [(''AItem'', EnumClass ''AItem'' ''geo'' (NSeq [NStr ''x'']))]\<rparr>
        ''A'' (NSeq [NMap [(KStr ''y'', NStr ''int'')]])
     = Inr (Array ''A'' ''geo'' (Object ''AItem'' ''geo'' [(''y'', Primitive ''int'')]),
            \<lparr>name = ''geo'',
               types = [(''AItem'', Object ''AItem'' ''geo'' [(''y'', Primitive ''int'')]),
                        (''int'', Primitive ''int''),
                        (''A'', Array ''A'' ''geo''
                                  (Object ''AItem'' ''geo'' [(''y'', Primitive ''int'')]))]\<rparr>)
   \<and> registrable (Array ''A'' ''geo'' (Object ''AItem'' ''geo'' [(''y'', Primitive ''int'')]))
   \<and> map_of [(''AItem'', Object ''AItem'' ''geo'' [(''y'', Primitive ''int'')]),
              (''int'', Primitive ''int''),
              (''A'', Array ''A'' ''geo'' (Object ''AItem'' ''geo'' [(''y'', Primitive ''int'')]))]
        ''A''
     = Some (Array ''A'' ''geo'' (Object ''AItem'' ''geo'' [(''y'', Primitive ''int'')]))"
  using registration_overwrites [where ttl = ascii_title, of
      "\<lparr>name = ''geo'', types = [(''AItem'', EnumClass ''AItem'' ''geo'' (NSeq [NStr ''x'']))]\<rparr>"
      "Object ''AItem'' ''geo'' [(''y'', Primitive ''int'')]"
      "EnumClass ''AItem'' ''geo'' (NSeq [NStr ''x''])"
      "''A''" "NSeq [NMap [(KStr ''y'', NStr ''int'')]]"
      "Array ''A'' ''geo'' (Object ''AItem'' ''geo'' [(''y'', Primitive ''int'')])"
      "\<lparr>name = ''geo'',
         types = [(''AItem'', Object ''AItem'' ''geo'' [(''y'', Primitive ''int'')]),
                  (''int'', Primitive ''int''),
                  (''A'', Array ''A'' ''geo''
                            (Object ''AItem'' ''geo'' [(''y'', Primitive ''int'')]))]\<rparr>" "[]"]
  by (simp add: build_eval)

section \<open>Determinism\<close>

text \<open>
  Claim C9. Two runs of the builder on the same content, in namespaces of the same name and
  whatever their tables hold, end alike: both fail with the same error, or both return the
  same definition (so the same field order in every \<open>Object\<close> and the same value order in
  every \<open>EnumClass\<close>) and make the same registrations in the same order. The same holds
  for the loop over the declared types of a document, which the root starts from the empty
  table.
\<close>

theorem build_deterministic:
  "name ns1 = name ns2 \<longrightarrow>
     ((\<exists>e. create_types ttl ns1 n desc = Inl e \<and> create_types ttl ns2 n desc = Inl e)
      \<or> (\<exists>t rs. create_types ttl ns1 n desc = Inr (t, register_all ns1 rs)
             \<and> create_types ttl ns2 n desc = Inr (t, register_all ns2 rs)))
     \<and> ((\<exists>e. create_all ttl ns1 tys = Inl e \<and> create_all ttl ns2 tys = Inl e)
      \<or> (\<exists>rs. create_all ttl ns1 tys = Inr (register_all ns1 rs)
             \<and> create_all ttl ns2 tys = Inr (register_all ns2 rs)))"
proof (intro impI conjI)
  assume same: "name ns1 = name ns2"
  then show "(\<exists>e. create_types ttl ns1 n desc = Inl e \<and> create_types ttl ns2 n desc = Inl e)
      \<or> (\<exists>t rs. create_types ttl ns1 n desc = Inr (t, register_all ns1 rs)
             \<and> create_types ttl ns2 n desc = Inr (t, register_all ns2 rs))"
    by (rule build_same_name)
  from same show "(\<exists>e. create_all ttl ns1 tys = Inl e \<and> create_all ttl ns2 tys = Inl e)
      \<or> (\<exists>rs. create_all ttl ns1 tys = Inr (register_all ns1 rs)
             \<and> create_all ttl ns2 tys = Inr (register_all ns2 rs))"
    using create_all_log[of "name ns1" ttl tys] by metis
qed

theorem build_deterministic_witness:
  "name \<lparr>name = ''geo'', types = []\<rparr>
     = name \<lparr>name = ''geo'', types = [(''Old'', Primitive ''int'')]\<rparr>
   \<and> create_types ascii_title \<lparr>name = ''geo'', types = []\<rparr> ''Color''
        (NMap [(KStr ''enum'', NSeq [NStr ''red'', NStr ''green'', NStr ''blue''])])
     = Inr (EnumClass ''Color'' ''geo'' (NSeq [NStr ''red'', NStr ''green'', NStr ''blue'']),
            register_all \<lparr>name = ''geo'', types = []\<rparr>
              [EnumClass ''Color'' ''geo'' (NSeq [NStr ''red'', NStr ''green'', NStr ''blue''])])
   \<and> create_types ascii_title \<lparr>name = ''geo'', types = [(''Old'', Primitive ''int'')]\<rparr> ''Color''
        (NMap [(KStr ''enum'', NSeq [NStr ''red'', NStr ''green'', NStr ''blue''])])
     = Inr (EnumClass ''Color'' ''geo'' (NSeq [NStr ''red'', NStr ''green'', NStr ''blue'']),
            register_all \<lparr>name = ''geo'', types = [(''Old'', Primitive ''int'')]\<rparr>
              [EnumClass ''Color'' ''geo'' (NSeq [NStr ''red'', NStr ''green'', NStr ''blue''])])
   \<and> create_all ascii_title \<lparr>name = ''geo'', types = []\<rparr>
        [(''Color'', NMap [(KStr ''enum'', NSeq [NStr ''red'', NStr ''green'', NStr ''blue''])])]
     = Inr (register_all \<lparr>name = ''geo'', types = []\<rparr>
              [EnumClass ''Color'' ''geo'' (NSeq [NStr ''red'', NStr ''green'', NStr ''blue''])])
   \<and> create_all ascii_title \<lparr>name = ''geo'', types = [(''Old'', Primitive ''int'')]\<rparr>
        [(''Color'', NMap [(KStr ''enum'', NSeq [NStr ''red'', NStr ''green'', NStr ''blue''])])]
     = Inr (register_all \<lparr>name = ''geo'', types = [(''Old'', Primitive ''int'')]\<rparr>
              [EnumClass ''Color'' ''geo'' (NSeq [NStr ''red'', NStr ''green'', NStr ''blue''])])"
  using build_deterministic [where ttl = ascii_title, of "\<lparr>name = ''geo'', types = []\<rparr>"
      "\<lparr>name = ''geo'', types = [(''Old'', Primitive ''int'')]\<rparr>" "''Color''"
      "NMap [(KStr ''enum'', NSeq [NStr ''red'', NStr ''green'', NStr ''blue''])]"
      "[(''Color'', NMap [(KStr ''enum'', NSeq [NStr ''red'', NStr ''green'', NStr ''blue''])])]"]
  by (simp add: build_eval)


section \<open>Optional is never nested\<close>

lemma fold_max_le: "fold max xs a \<le> (b::nat) \<longleftrightarrow> a \<le> b \<and> (\<forall>x\<in>set xs. x \<le> b)"
  by (induction xs arbitrary: a) auto

lemma opt_depth_Object:
  "opt_depth (Object n p fs) \<le> 1 \<longleftrightarrow> (\<forall>e\<in>set fs. opt_depth (snd e) \<le> 1)"
  by (auto simp: fold_max_le)

lemma opt_chain_0: "\<not> is_Optional t \<Longrightarrow> opt_chain t = 0"
  by (cases t) auto

lemma opt_depth_register:
  "opt_depth t \<le> 1 \<Longrightarrow> \<forall>e\<in>set (types ns). opt_depth (snd e) \<le> 1
    \<Longrightarrow> \<forall>e\<in>set (types (register ns t)). opt_depth (snd e) \<le> 1"
  using set_update_subset[of "res_name t" t "types ns"] by (auto simp: register_def)

lemma opt_depth_update:
  "opt_depth t \<le> 1 \<Longrightarrow> \<forall>e\<in>set flds. opt_depth (snd e) \<le> 1
    \<Longrightarrow> \<forall>e\<in>set (AList.update k t flds). opt_depth (snd e) \<le> 1"
  using set_update_subset[of k t flds] by auto

lemma build_opt_depth:
  "create_types ttl ns n desc = Inr (t, ns') \<Longrightarrow>
     opt_depth t \<le> 1 \<and> ((\<forall>e\<in>set (types ns). opt_depth (snd e) \<le> 1)
        \<longrightarrow> (\<forall>e\<in>set (types ns'). opt_depth (snd e) \<le> 1))"
  "build_struct ttl ns n struct = Inr (t, ns') \<Longrightarrow>
     opt_depth t \<le> 1 \<and> ((\<forall>e\<in>set (types ns). opt_depth (snd e) \<le> 1)
        \<longrightarrow> (\<forall>e\<in>set (types ns'). opt_depth (snd e) \<le> 1))"
  "create_fields ttl ns n kvs flds = Inr (fs, ns') \<Longrightarrow> \<forall>e\<in>set flds. opt_depth (snd e) \<le> 1 \<Longrightarrow>
     (\<forall>e\<in>set fs. opt_depth (snd e) \<le> 1) \<and> ((\<forall>e\<in>set (types ns). opt_depth (snd e) \<le> 1)
        \<longrightarrow> (\<forall>e\<in>set (types ns'). opt_depth (snd e) \<le> 1))"
proof (induction desc and struct and kvs arbitrary: ns n t ns' and ns n t ns' and ns n flds fs ns'
    rule: builder_induct)
  case (create desc)
  from create.prems show ?case
  proof (cases rule: create_types_InrE)
    case (enum kvs vs)
    then show ?thesis
      using opt_depth_register[of t ns] by simp
  next
    case (wrapped kvs struct)
    then show ?thesis using create.IH(2) by blast
  next
    case plain
    then show ?thesis using create.IH(1) by blast
  qed
next
  case (str s)
  from str.prems show ?case
    using opt_depth_register[of "Primitive s" ns]
    by (auto simp: Let_def split: if_splits prod.splits)
next
  case (map kvs)
  from map.prems obtain flds ns1 where
    a: "create_fields ttl ns n kvs [] = Inr (flds, ns1)" and
    t: "t = Object n (name ns1) flds" and b: "ns' = register ns1 t"
    by (auto split: sum.splits simp: Let_def)
  from map.IH[OF a] have f: "\<forall>e\<in>set flds. opt_depth (snd e) \<le> 1"
    and tb: "(\<forall>e\<in>set (types ns). opt_depth (snd e) \<le> 1)
        \<longrightarrow> (\<forall>e\<in>set (types ns1). opt_depth (snd e) \<le> 1)"
    by simp_all
  from f t have d: "opt_depth t \<le> 1" by (simp only: opt_depth_Object)
  with tb b show ?case using opt_depth_register[of t ns1] by blast
next
  case (seq xs)
  from seq.prems obtain x item ns1 where xs: "xs = [x]" and
    a: "create_types ttl ns (n @ ''Item'') x = Inr (item, ns1)" and
    t: "t = Array n (name ns) item" and b: "ns' = register ns1 t"
    by (auto split: sum.splits list.splits simp: Let_def)
  from seq.IH[OF xs a] t have d: "opt_depth t \<le> 1"
    and tb: "(\<forall>e\<in>set (types ns). opt_depth (snd e) \<le> 1)
        \<longrightarrow> (\<forall>e\<in>set (types ns1). opt_depth (snd e) \<le> 1)"
    by simp_all
  with b show ?case using opt_depth_register[of t ns1] by blast
next
  case (cons k v rest)
  from cons.prems(1) obtain c r ns1 where
    a: "create_types ttl ns (n @ camel_case ttl (field_key k)) v = Inr (r, ns1)" and
    b: "create_fields ttl ns1 n rest (AList.update (field_key k) (field_type k r) flds) = Inr (fs, ns')"
    by (auto simp: create_fields_Cons simp del: create_fields.simps split: sum.splits)
  from cons.IH(1)[OF a] have r: "opt_depth r \<le> 1"
    and tb: "(\<forall>e\<in>set (types ns). opt_depth (snd e) \<le> 1)
        \<longrightarrow> (\<forall>e\<in>set (types ns1). opt_depth (snd e) \<le> 1)"
    by simp_all
  from a have "opt_chain r = 0" by (auto dest: result_not_Optional intro: opt_chain_0)
  with r have "opt_depth (field_type k r) \<le> 1" by (simp add: field_type_def)
  with cons.prems(2)
  have "\<forall>e\<in>set (AList.update (field_key k) (field_type k r) flds). opt_depth (snd e) \<le> 1"
    by (rule opt_depth_update[rotated])
  from cons.IH(2)[OF b this] tb show ?case by blast
qed auto

text \<open>
  Claim C4. Constructing \<open>Optional\<close> on a definition that is itself an \<open>Optional\<close> fails
  with the assertion error, and on any other definition it wraps that definition as it is.
  In every definition the builder returns, and in every table it returns when the table it
  was given was so, no \<open>Optional\<close> stands directly inside another: the depth of \<open>Optional\<close>
  nesting is at most 1.
\<close>

theorem optional_never_nested:
  "mk_Optional (Optional t) = Inl AssertionError
   \<and> (\<not> is_Optional t \<longrightarrow> mk_Optional t = Inr (Optional t))
   \<and> (create_types ttl ns n desc = Inr (r, ns') \<longrightarrow>
        opt_depth r \<le> 1
        \<and> ((\<forall>e\<in>set (types ns). opt_depth (snd e) \<le> 1)
             \<longrightarrow> (\<forall>e\<in>set (types ns'). opt_depth (snd e) \<le> 1)))"
  using build_opt_depth(1)[of ttl ns n desc r ns'] by (simp add: mk_Optional_def)

theorem optional_never_nested_witness:
  "\<not> is_Optional (Primitive ''str'')
   \<and> mk_Optional (Primitive ''str'') = Inr (Optional (Primitive ''str''))
   \<and> create_types ascii_title \<lparr>name = ''geo'', types = []\<rparr> ''P'' (NMap [(KStr ''label?'', NStr ''str'')])
      = Inr (Object ''P'' ''geo'' [(''label'', Optional (Primitive ''str''))],
             \<lparr>name = ''geo'',
                types = [(''str'', Primitive ''str''),
                         (''P'', Object ''P'' ''geo'' [(''label'', Optional (Primitive ''str''))])]\<rparr>)
   \<and> opt_depth (Object ''P'' ''geo'' [(''label'', Optional (Primitive ''str''))]) \<le> 1
   \<and> opt_depth (Primitive ''str'') \<le> 1"
  using optional_never_nested [where ttl = ascii_title, of "Primitive ''str''" "\<lparr>name = ''geo'', types = []\<rparr>" "''P''"
      "NMap [(KStr ''label?'', NStr ''str'')]"
      "Object ''P'' ''geo'' [(''label'', Optional (Primitive ''str''))]"
      "\<lparr>name = ''geo'',
         types = [(''str'', Primitive ''str''),
                  (''P'', Object ''P'' ''geo'' [(''label'', Optional (Primitive ''str''))])]\<rparr>"]
  by (simp add: build_eval)


section \<open>Mapping nodes\<close>

lemma update_fresh: "k \<notin> fst ` set al \<Longrightarrow> AList.update k v al = al @ [(k, v)]"
  by (induction al) auto

lemma update_all_fresh:
  "distinct (map fst acc @ map fst us) \<Longrightarrow> update_all acc us = acc @ us"
proof (induction us arbitrary: acc)
  case Nil
  then show ?case by simp
next
  case (Cons u us)
  obtain k t where u: "u = (k, t)" by (cases u)
  from Cons.prems u have fresh: "k \<notin> fst ` set acc" by auto
  from Cons.prems u have "distinct (map fst (acc @ [(k, t)]) @ map fst us)" by auto
  from Cons.IH[OF this] u fresh show ?case by (simp add: update_fresh)
qed

lemma build_transfer:
  assumes "name ns1 = name ns2" and "create_types ttl ns1 n desc = Inr (t, ns1')"
  shows "\<exists>ns2'. create_types ttl ns2 n desc = Inr (t, ns2')"
  using build_same_name[OF assms(1), of ttl n desc] assms(2) by auto

lemma create_fields_assigned:
  assumes "create_fields ttl ns n kvs acc = Inr (fs, ns')"
  shows "\<exists>us. fs = update_all acc us \<and>
    list_all2 (\<lambda>(k, v) (fk, ft). fk = field_key k \<and>
        (\<exists>r ns2. create_types ttl ns (n @ camel_case ttl (field_key k)) v = Inr (r, ns2)
            \<and> ft = field_type k r)) kvs us"
  using assms
proof (induction kvs arbitrary: ns acc)
  case Nil
  have "acc = update_all acc []" by simp
  with Nil show ?case by auto
next
  case (Cons kv rest)
  obtain k v where kv: "kv = (k, v)" by (cases kv)
  from Cons.prems kv obtain r ns1 where
    a: "create_types ttl ns (n @ camel_case ttl (field_key k)) v = Inr (r, ns1)" and
    b: "create_fields ttl ns1 n rest (AList.update (field_key k) (field_type k r) acc)
          = Inr (fs, ns')"
    by (auto simp: create_fields_Cons simp del: create_fields.simps split: sum.splits)
  from Cons.IH[OF b] obtain us where
    fs: "fs = update_all (AList.update (field_key k) (field_type k r) acc) us" and
    l: "list_all2 (\<lambda>(k, v) (fk, ft). fk = field_key k \<and>
        (\<exists>r ns2. create_types ttl ns1 (n @ camel_case ttl (field_key k)) v = Inr (r, ns2)
            \<and> ft = field_type k r)) rest us"
    by blast
  from a have same: "name ns1 = name ns" by (rule name_preserved(1))
  have l': "list_all2 (\<lambda>(k, v) (fk, ft). fk = field_key k \<and>
        (\<exists>r ns2. create_types ttl ns (n @ camel_case ttl (field_key k)) v = Inr (r, ns2)
            \<and> ft = field_type k r)) rest us"
    using l by (rule list_all2_mono) (auto dest: build_transfer[OF same])
  have "fs = update_all acc ((field_key k, field_type k r) # us)" using fs by simp
  moreover have "list_all2 (\<lambda>(k, v) (fk, ft). fk = field_key k \<and>
        (\<exists>r ns2. create_types ttl ns (n @ camel_case ttl (field_key k)) v = Inr (r, ns2)
            \<and> ft = field_type k r)) (kv # rest) ((field_key k, field_type k r) # us)"
    using l' a kv by auto
  ultimately show ?case by blast
qed

lemma create_types_mapping:
  assumes "map_of kvs (KStr ''enum'') = None" and "map_of kvs (KStr ''structure'') = None"
  shows "create_types ttl ns n (NMap kvs) =
     (case create_fields ttl ns n kvs [] of
        Inl e \<Rightarrow> Inl e
      | Inr (flds, ns') \<Rightarrow>
          Inr (Object n (name ns) flds,
               ns'\<lparr>types := AList.update n (Object n (name ns) flds) (types ns')\<rparr>))"
  using assms
  by (auto simp: create_types_unfold Let_def register_def split: sum.splits
      dest: name_preserved(3))

lemma camel_case_words:
  "CHR ''_'' \<notin> set a \<Longrightarrow> camel_case ttl a = ttl a"
  "CHR ''_'' \<notin> set a \<Longrightarrow> camel_case ttl (a @ ''_'' @ b) = ttl a @ camel_case ttl b"
proof -
  assume a: "CHR ''_'' \<notin> set a"
  then show "camel_case ttl a = ttl a"
    by (simp add: camel_case_def split_no_sep)
  have "split (CHR ''_'') (a @ CHR ''_'' # b) = a # split (CHR ''_'') b"
    using a
  proof (induction a)
    case Nil
    then show ?case by simp
  next
    case (Cons c cs)
    then show ?case by auto
  qed
  then show "camel_case ttl (a @ ''_'' @ b) = ttl a @ camel_case ttl b"
    by (simp add: camel_case_def)
qed

text \<open>
  Claim C3, as the code has it. A mapping node without the keys \<open>enum\<close> and \<open>structure\<close>
  that builds under the name \<open>n\<close> yields an \<open>Object\<close> named \<open>n\<close> in the namespace,
  registered under \<open>n\<close>. Every key, in declaration order, gives an assignment \<open>us\<close> to the
  dict of fields: the field is named by the key without its marker \<open>?\<close>, and its type is
  the one built for the key's node under the child name \<open>n\<close> followed by the camel-cased
  field name, wrapped in \<open>Optional\<close> exactly when the key ends in \<open>?\<close>. The fields of the
  object are the dict these assignments leave: keys that give the same field name, as \<open>a\<close>
  and \<open>a?\<close> do, share one field, at the place of the first and with the type of the last,
  and where the field names are distinct the fields are the assignments themselves, in
  order. Camel-casing titles each part between underscores with \<open>str.title\<close> and joins the
  parts. Building \<open>{x: float, y: float, label?: str}\<close> as \<open>Point\<close> in \<open>geo\<close> gives the
  \<open>Object\<close> \<open>Point\<close> with the fields \<open>x\<close> and \<open>y\<close> of the primitive \<open>float\<close> and \<open>label\<close>,
  an \<open>Optional\<close> of the primitive \<open>str\<close>; and where \<open>str.title\<close> maps \<open>user\<close> to \<open>User\<close>
  and \<open>ID\<close> to \<open>Id\<close>, the optional field \<open>user_ID\<close> of \<open>P\<close> holding a sequence gets the
  \<open>Array\<close> named \<open>PUserId\<close>.
\<close>

theorem mapping_build:
  "(map_of kvs (KStr ''enum'') = None \<and> map_of kvs (KStr ''structure'') = None
      \<and> create_types ttl ns n (NMap kvs) = Inr (t, ns') \<longrightarrow>
      (\<exists>us. t = Object n (name ns) (update_all [] us)
         \<and> map_of (types ns') n = Some t
         \<and> list_all2 (\<lambda>(k, v) (fk, ft). fk = field_key k \<and>
                (\<exists>r ns2. create_types ttl ns (n @ camel_case ttl (field_key k)) v = Inr (r, ns2)
                    \<and> ft = field_type k r)) kvs us
         \<and> (distinct (map (\<lambda>kv. field_key (fst kv)) kvs) \<longrightarrow> update_all [] us = us)))
   \<and> (CHR ''_'' \<notin> set a \<longrightarrow>
         camel_case ttl a = ttl a \<and> camel_case ttl (a @ ''_'' @ b) = ttl a @ camel_case ttl b)
   \<and> create_types ttl \<lparr>name = ''geo'', types = []\<rparr> ''Point''
        (NMap [(KStr ''x'', NStr ''float''), (KStr ''y'', NStr ''float''),
               (KStr ''label?'', NStr ''str'')])
      = Inr (Object ''Point'' ''geo''
               [(''x'', Primitive ''float''), (''y'', Primitive ''float''),
                (''label'', Optional (Primitive ''str''))],
             \<lparr>name = ''geo'',
                types = [(''float'', Primitive ''float''), (''str'', Primitive ''str''),
                         (''Point'', Object ''Point'' ''geo''
                            [(''x'', Primitive ''float''), (''y'', Primitive ''float''),
                             (''label'', Optional (Primitive ''str''))])]\<rparr>)
   \<and> (ttl ''user'' = ''User'' \<and> ttl ''ID'' = ''Id'' \<longrightarrow>
        create_types ttl \<lparr>name = ''geo'', types = []\<rparr> ''P''
          (NMap [(KStr ''x'', NStr ''float''), (KStr ''user_ID?'', NSeq [NStr ''int''])])
        = Inr (Object ''P'' ''geo''
                 [(''x'', Primitive ''float''),
                  (''user_ID'', Optional (Array ''PUserId'' ''geo'' (Primitive ''int'')))],
               \<lparr>name = ''geo'',
                  types = [(''float'', Primitive ''float''), (''int'', Primitive ''int''),
                           (''PUserId'', Array ''PUserId'' ''geo'' (Primitive ''int'')),
                           (''P'', Object ''P'' ''geo''
                              [(''x'', Primitive ''float''),
                               (''user_ID'',
                                Optional (Array ''PUserId'' ''geo'' (Primitive ''int'')))])]\<rparr>))"
proof (intro conjI impI)
  assume a: "map_of kvs (KStr ''enum'') = None \<and> map_of kvs (KStr ''structure'') = None
      \<and> create_types ttl ns n (NMap kvs) = Inr (t, ns')"
  then have eq: "create_types ttl ns n (NMap kvs) =
     (case create_fields ttl ns n kvs [] of
        Inl e \<Rightarrow> Inl e
      | Inr (flds, ns') \<Rightarrow>
          Inr (Object n (name ns) flds,
               ns'\<lparr>types := AList.update n (Object n (name ns) flds) (types ns')\<rparr>))"
    by (intro create_types_mapping) simp_all
  with a obtain flds ns1 where
    f: "create_fields ttl ns n kvs [] = Inr (flds, ns1)" and
    t: "t = Object n (name ns) flds" and
    n': "ns' = ns1\<lparr>types := AList.update n t (types ns1)\<rparr>"
    by (auto split: sum.splits)
  have reg: "map_of (types ns') n = Some t"
    using n' by (simp add: AList.update_conv')
  from create_fields_assigned[OF f] obtain us where
    us: "flds = update_all [] us" and
    l: "list_all2 (\<lambda>(k, v) (fk, ft). fk = field_key k \<and>
          (\<exists>r ns2. create_types ttl ns (n @ camel_case ttl (field_key k)) v = Inr (r, ns2)
              \<and> ft = field_type k r)) kvs us"
    by blast
  have keys: "map fst us = map (\<lambda>kv. field_key (fst kv)) kvs"
    using l by (induction kvs us rule: list_all2_induct) auto
  have "update_all [] us = us" if "distinct (map (\<lambda>kv. field_key (fst kv)) kvs)"
    using update_all_fresh[of "[]" us] that keys by simp
  with t us reg l show "\<exists>us. t = Object n (name ns) (update_all [] us)
         \<and> map_of (types ns') n = Some t
         \<and> list_all2 (\<lambda>(k, v) (fk, ft). fk = field_key k \<and>
                (\<exists>r ns2. create_types ttl ns (n @ camel_case ttl (field_key k)) v = Inr (r, ns2)
                    \<and> ft = field_type k r)) kvs us
         \<and> (distinct (map (\<lambda>kv. field_key (fst kv)) kvs) \<longrightarrow> update_all [] us = us)"
    by blast
next
  assume "CHR ''_'' \<notin> set a"
  then show "camel_case ttl a = ttl a"
    and "camel_case ttl (a @ ''_'' @ b) = ttl a @ camel_case ttl b"
    by (rule camel_case_words)+
next
  assume "ttl ''user'' = ''User'' \<and> ttl ''ID'' = ''Id''"
  moreover have "camel_case ttl ''user_ID'' = ttl ''user'' @ ttl ''ID''"
    by (simp add: camel_case_def)
  ultimately have "camel_case ttl ''user_ID'' = ''UserId''" by simp
  then show "create_types ttl \<lparr>name = ''geo'', types = []\<rparr> ''P''
          (NMap [(KStr ''x'', NStr ''float''), (KStr ''user_ID?'', NSeq [NStr ''int''])])
        = Inr (Object ''P'' ''geo''
                 [(''x'', Primitive ''float''),
                  (''user_ID'', Optional (Array ''PUserId'' ''geo'' (Primitive ''int'')))],
               \<lparr>name = ''geo'',
                  types = [(''float'', Primitive ''float''), (''int'', Primitive ''int''),
                           (''PUserId'', Array ''PUserId'' ''geo'' (Primitive ''int'')),
                           (''P'', Object ''P'' ''geo''
                              [(''x'', Primitive ''float''),
                               (''user_ID'',
                                Optional (Array ''PUserId'' ''geo'' (Primitive ''int'')))])]\<rparr>)"
    by (simp add: create_types_unfold Primitive_map_def register_def Let_def mk_Optional_def)
qed (simp add: create_types_unfold Primitive_map_def register_def Let_def mk_Optional_def)

theorem mapping_build_witness:
  "map_of [(KStr ''x'', NStr ''float''), (KStr ''user_ID?'', NSeq [NStr ''int''])] (KStr ''enum'')
     = None
   \<and> map_of [(KStr ''x'', NStr ''float''), (KStr ''user_ID?'', NSeq [NStr ''int''])]
        (KStr ''structure'') = None
   \<and> ascii_title ''user'' = ''User'' \<and> ascii_title ''ID'' = ''Id''
   \<and> CHR ''_'' \<notin> set ''user''
   \<and> camel_case ascii_title (''user'' @ ''_'' @ ''ID'') = ''UserId''
   \<and> create_types ascii_title \<lparr>name = ''geo'', types = []\<rparr> ''P''
        (NMap [(KStr ''x'', NStr ''float''), (KStr ''user_ID?'', NSeq [NStr ''int''])])
      = Inr (Object ''P'' ''geo''
               [(''x'', Primitive ''float''),
                (''user_ID'', Optional (Array ''PUserId'' ''geo'' (Primitive ''int'')))],
             \<lparr>name = ''geo'',
                types = [(''float'', Primitive ''float''), (''int'', Primitive ''int''),
                         (''PUserId'', Array ''PUserId'' ''geo'' (Primitive ''int'')),
                         (''P'', Object ''P'' ''geo''
                            [(''x'', Primitive ''float''),
                             (''user_ID'',
                              Optional (Array ''PUserId'' ''geo'' (Primitive ''int'')))])]\<rparr>)
   \<and> distinct (map (\<lambda>kv. field_key (fst kv))
        [(KStr ''x'', NStr ''float''), (KStr ''user_ID?'', NSeq [NStr ''int''])])
   \<and> field_key (KStr ''user_ID?'') = ''user_ID''
   \<and> create_types ascii_title \<lparr>name = ''geo'', types = []\<rparr>
        (''P'' @ camel_case ascii_title ''user_ID'') (NSeq [NStr ''int''])
      = Inr (Array ''PUserId'' ''geo'' (Primitive ''int''),
             \<lparr>name = ''geo'',
                types = [(''int'', Primitive ''int''),
                         (''PUserId'', Array ''PUserId'' ''geo'' (Primitive ''int''))]\<rparr>)
   \<and> field_type (KStr ''user_ID?'') (Array ''PUserId'' ''geo'' (Primitive ''int''))
      = Optional (Array ''PUserId'' ''geo'' (Primitive ''int''))
   \<and> update_all []
        [(''x'', Primitive ''float''),
         (''user_ID'', Optional (Array ''PUserId'' ''geo'' (Primitive ''int'')))]
      = [(''x'', Primitive ''float''),
         (''user_ID'', Optional (Array ''PUserId'' ''geo'' (Primitive ''int'')))]"
  using mapping_build [where ttl = ascii_title,
      of "[(KStr ''x'', NStr ''float''), (KStr ''user_ID?'', NSeq [NStr ''int''])]"
      "\<lparr>name = ''geo'', types = []\<rparr>" "''P''"
      "Object ''P'' ''geo''
         [(''x'', Primitive ''float''),
          (''user_ID'', Optional (Array ''PUserId'' ''geo'' (Primitive ''int'')))]"
      "\<lparr>name = ''geo'',
         types = [(''float'', Primitive ''float''), (''int'', Primitive ''int''),
                  (''PUserId'', Array ''PUserId'' ''geo'' (Primitive ''int'')),
                  (''P'', Object ''P'' ''geo''
                     [(''x'', Primitive ''float''),
                      (''user_ID'',
                       Optional (Array ''PUserId'' ''geo'' (Primitive ''int'')))])]\<rparr>"
      "''user''" "''ID''"]
  by (simp add: build_eval)

text \<open>
  Claim C3 as stated says that the object has the declared fields, in order. The mapping
  \<open>{a: Foo, a?: str}\<close> declares two fields and its object has one: the second assignment to
  \<open>a\<close> replaces the reference to \<open>Foo\<close>.
\<close>

theorem mapping_collision_counterexample:
  "create_types ascii_title \<lparr>name = ''geo'', types = []\<rparr> ''P''
     (NMap [(KStr ''a'', NStr ''Foo''), (KStr ''a?'', NStr ''str'')])
   = Inr (Object ''P'' ''geo'' [(''a'', Optional (Primitive ''str''))],
          \<lparr>name = ''geo'',
             types = [(''str'', Primitive ''str''),
                      (''P'', Object ''P'' ''geo'' [(''a'', Optional (Primitive ''str''))])]\<rparr>)
   \<and> length [(KStr ''a'', NStr ''Foo''), (KStr ''a?'', NStr ''str'')] = 2
   \<and> length [(''a'', Optional (Primitive ''str'') :: node tdef)] = 1"
  by (simp add: build_eval)

section \<open>The input node is left as it was\<close>

text \<open>
  Every write to the store goes to an object allocated by the copy itself: an address that
  was allocated at a level \<open>L\<close> keeps its object through \<open>deepcopy\<close> and through the
  builder, whatever the outcome.
\<close>

lemma list_append_frame [simp]:
  "length (list_append h y a) = length h"
  "L \<le> y \<Longrightarrow> take L (list_append h y a) = take L h"
  by (simp_all add: list_append_def)

lemma dict_setitem_frame [simp]:
  "length (dict_setitem h y k a) = length h"
  "L \<le> y \<Longrightarrow> take L (dict_setitem h y k a) = take L h"
  by (simp_all add: dict_setitem_def)

lemma deepcopy_list_frame:
  assumes rec: "\<And>h memo a r h'. L \<le> length h \<Longrightarrow> rec h memo a = (r, h')
      \<Longrightarrow> L \<le> length h' \<and> take L h' = take L h"
  shows "L \<le> length h \<Longrightarrow> L \<le> y \<Longrightarrow> deepcopy_list rec h memo y xs = (r, h')
      \<Longrightarrow> L \<le> length h' \<and> take L h' = take L h"
proof (induction xs arbitrary: h memo)
  case Nil
  then show ?case by auto
next
  case (Cons a as)
  obtain r1 h1 where a: "rec h memo a = (r1, h1)" by (cases "rec h memo a")
  from rec[OF Cons.prems(1) a] have 1: "L \<le> length h1" and 2: "take L h1 = take L h"
    by simp_all
  show ?case
  proof (cases r1)
    case (Inl e)
    with Cons.prems(3) a 1 2 show ?thesis by auto
  next
    case (Inr p)
    obtain memo1 a1 where p: "p = (memo1, a1)" by (cases p)
    with Inr Cons.prems(3) a
    have b: "deepcopy_list rec (list_append h1 y a1) memo1 y as = (r, h')" by simp
    from 1 have "L \<le> length (list_append h1 y a1)" by simp
    from Cons.IH[OF this Cons.prems(2) b] 2 Cons.prems(2) show ?thesis by simp
  qed
qed

lemma deepcopy_dict_frame:
  assumes rec: "\<And>h memo a r h'. L \<le> length h \<Longrightarrow> rec h memo a = (r, h')
      \<Longrightarrow> L \<le> length h' \<and> take L h' = take L h"
  shows "L \<le> length h \<Longrightarrow> L \<le> y \<Longrightarrow> deepcopy_dict rec h memo y kvs = (r, h')
      \<Longrightarrow> L \<le> length h' \<and> take L h' = take L h"
proof (induction kvs arbitrary: h memo)
  case Nil
  then show ?case by auto
next
  case (Cons kv kvs)
  obtain k a where kv: "kv = (k, a)" by (cases kv)
  obtain r1 h1 where a: "rec h memo a = (r1, h1)" by (cases "rec h memo a")
  from rec[OF Cons.prems(1) a] have 1: "L \<le> length h1" and 2: "take L h1 = take L h"
    by simp_all
  show ?case
  proof (cases r1)
    case (Inl e)
    with Cons.prems(3) kv a 1 2 show ?thesis by auto
  next
    case (Inr p)
    obtain memo1 a1 where p: "p = (memo1, a1)" by (cases p)
    with Inr Cons.prems(3) kv a
    have b: "deepcopy_dict rec (dict_setitem h1 y k a1) memo1 y kvs = (r, h')" by simp
    from 1 have "L \<le> length (dict_setitem h1 y k a1)" by simp
    from Cons.IH[OF this Cons.prems(2) b] 2 Cons.prems(2) show ?thesis by simp
  qed
qed

lemma deepcopy_frame:
  "L \<le> length h \<Longrightarrow> deepcopy fuel h memo x = (r, h')
    \<Longrightarrow> L \<le> length h' \<and> take L h' = take L h"
proof (induction fuel arbitrary: h memo x r h')
  case 0
  then show ?case by auto
next
  case (Suc fuel)
  show ?case
  proof (cases "map_of memo x")
    case (Some z)
    with Suc.prems show ?thesis by auto
  next
    case None
    show ?thesis
    proof (cases "deref h x")
      case None
      with \<open>map_of memo x = None\<close> Suc.prems show ?thesis by auto
    next
      case (Some ob)
      have ext: "L \<le> length (h @ [ob'])" "L \<le> length h" "take L (h @ [ob']) = take L h" for ob'
        using Suc.prems(1) by simp_all
      show ?thesis
      proof (cases ob)
        case (OSeq xs)
        with Some \<open>map_of memo x = None\<close> Suc.prems(2)
        have "deepcopy_list (deepcopy fuel) (h @ [OSeq []]) ((x, length h) # memo) (length h) xs
            = (r, h')" by simp
        from deepcopy_list_frame[of L "deepcopy fuel", OF Suc.IH ext(1) ext(2) this] ext(3)
        show ?thesis by simp
      next
        case (OMap kvs)
        with Some \<open>map_of memo x = None\<close> Suc.prems(2)
        have "deepcopy_dict (deepcopy fuel) (h @ [OMap []]) ((x, length h) # memo) (length h) kvs
            = (r, h')" by simp
        from deepcopy_dict_frame[of L "deepcopy fuel", OF Suc.IH ext(1) ext(2) this] ext(3)
        show ?thesis by simp
      qed (use Some \<open>map_of memo x = None\<close> Suc.prems in auto)
    qed
  qed
qed

lemma create_fields_h_frame:
  assumes rec: "\<And>h ns n a r h'. L \<le> length h \<Longrightarrow> rec h ns n a = (r, h')
      \<Longrightarrow> L \<le> length h' \<and> take L h' = take L h"
  shows "L \<le> length h \<Longrightarrow> create_fields_h ttl rec h ns n kvs flds = (r, h')
      \<Longrightarrow> L \<le> length h' \<and> take L h' = take L h"
proof (induction kvs arbitrary: h ns flds)
  case Nil
  then show ?case by auto
next
  case (Cons kv rest)
  obtain k v where kv: "kv = (k, v)" by (cases kv)
  show ?case
  proof (cases "key_last k")
    case (Inl e)
    with Cons.prems kv show ?thesis by auto
  next
    case (Inr c)
    define m where "m = (if c = CHR ''?'' then n @ camel_case ttl (butlast (key_str k))
      else n @ camel_case ttl (key_str k))"
    obtain r1 h1 where a: "rec h ns m v = (r1, h1)" by (cases "rec h ns m v")
    from rec[OF Cons.prems(1) a] have 1: "L \<le> length h1" and 2: "take L h1 = take L h"
      by simp_all
    from Cons.prems(2) kv Inr a
    have "h' = h1 \<or> (\<exists>ns1 fl. create_fields_h ttl rec h1 ns1 n rest fl = (r, h'))"
      by (auto simp: m_def split: if_splits sum.splits prod.splits)
    then show ?thesis
    proof
      assume "h' = h1"
      with 1 2 show ?thesis by simp
    next
      assume "\<exists>ns1 fl. create_fields_h ttl rec h1 ns1 n rest fl = (r, h')"
      then obtain ns1 fl where "create_fields_h ttl rec h1 ns1 n rest fl = (r, h')" by blast
      from Cons.IH[OF 1 this] 2 show ?thesis by simp
    qed
  qed
qed

lemma build_struct_h_frame:
  assumes rec: "\<And>h ns n a r h'. L \<le> length h \<Longrightarrow> rec h ns n a = (r, h')
      \<Longrightarrow> L \<le> length h' \<and> take L h' = take L h"
    and "L \<le> length h" and "build_struct_h ttl rec h ns n struct = (r, h')"
  shows "L \<le> length h' \<and> take L h' = take L h"
proof (cases "deref h struct")
  case None
  with assms(2,3) show ?thesis by (auto simp: build_struct_h_def)
next
  case (Some ob)
  show ?thesis
  proof (cases ob)
    case (OMap kvs)
    obtain r1 h1 where f: "create_fields_h ttl rec h ns n kvs [] = (r1, h1)"
      by (cases "create_fields_h ttl rec h ns n kvs []")
    with OMap Some assms(3) have "h' = h1"
      by (auto simp: build_struct_h_def Let_def split: sum.splits prod.splits)
    with create_fields_h_frame[of L rec, OF rec assms(2) f] show ?thesis by simp
  next
    case (OSeq xs)
    with Some assms(3) have "h' = h \<or> (\<exists>x r1. rec h ns (n @ ''Item'') x = (r1, h'))"
      by (auto simp: build_struct_h_def Let_def split: sum.splits prod.splits list.splits)
    with rec[OF assms(2)] assms(2) show ?thesis by blast
  qed (use Some assms(2,3) in \<open>auto simp: build_struct_h_def Let_def split: if_splits\<close>)
qed

lemma create_types_h_frame:
  "L \<le> length h \<Longrightarrow> create_types_h ttl fuel h ns n desc = (r, h')
    \<Longrightarrow> L \<le> length h' \<and> take L h' = take L h"
proof (induction fuel arbitrary: h ns n desc r h')
  case 0
  then show ?case by auto
next
  case (Suc fuel)
  obtain r1 h1 where c: "deepcopy fuel h [] desc = (r1, h1)"
    by (cases "deepcopy fuel h [] desc")
  from deepcopy_frame[OF Suc.prems(1) c] have 1: "L \<le> length h1" and 2: "take L h1 = take L h"
    by simp_all
  from Suc.prems(2) c
  have "h' = h1 \<or> (\<exists>s. build_struct_h ttl (create_types_h ttl fuel) h1 ns n s = (r, h'))"
    by (auto simp: Let_def split: sum.splits if_splits prod.splits)
  then show ?case
  proof
    assume "h' = h1"
    with 1 2 show ?thesis by simp
  next
    assume "\<exists>s. build_struct_h ttl (create_types_h ttl fuel) h1 ns n s = (r, h')"
    then obtain s where "build_struct_h ttl (create_types_h ttl fuel) h1 ns n s = (r, h')" by blast
    from build_struct_h_frame[of L "create_types_h ttl fuel", OF Suc.IH 1 this] 2
    show ?thesis by simp
  qed
qed

lemma deref_prefix: "prefix h h' \<Longrightarrow> deref h a = Some ob \<Longrightarrow> deref h' a = Some ob"
  by (auto simp: deref_def prefix_def nth_append split: if_splits)

lemma those_map_Some:
  "those (map f xs) = Some ys \<Longrightarrow> x \<in> set xs \<Longrightarrow> \<exists>y. f x = Some y"
  by (induction xs arbitrary: ys) (auto split: option.splits)

lemma node_of_prefix:
  "prefix h h' \<Longrightarrow> node_of k h a = Some x \<Longrightarrow> node_of k h' a = Some x"
proof (induction k arbitrary: a x)
  case 0
  then show ?case by simp
next
  case (Suc k)
  from Suc.prems(2) obtain ob where ob: "deref h a = Some ob"
    by (auto split: option.splits)
  with Suc.prems(1) have ob': "deref h' a = Some ob" by (rule deref_prefix)
  show ?case
  proof (cases ob)
    case (OSeq xs)
    with ob Suc.prems(2) obtain ys where ys: "those (map (node_of k h) xs) = Some ys"
      by auto
    have eq: "map (node_of k h') xs = map (node_of k h) xs"
    proof (rule map_cong[OF refl])
      fix b assume "b \<in> set xs"
      with ys obtain y where "node_of k h b = Some y" using those_map_Some by metis
      with Suc.IH[OF Suc.prems(1) this] show "node_of k h' b = node_of k h b" by simp
    qed
    have "node_of (Suc k) h' a = map_option NSeq (those (map (node_of k h') xs))"
      using ob' OSeq by simp
    also have "\<dots> = map_option NSeq (those (map (node_of k h) xs))"
      by (simp only: eq)
    also have "\<dots> = node_of (Suc k) h a"
      using ob OSeq by simp
    finally show ?thesis using Suc.prems(2) by simp
  next
    case (OMap kvs)
    with ob Suc.prems(2) obtain ys where
      ys: "those (map (\<lambda>(k', v). map_option (Pair k') (node_of k h v)) kvs) = Some ys"
      by auto
    have eq: "map (\<lambda>(k', v). map_option (Pair k') (node_of k h' v)) kvs
        = map (\<lambda>(k', v). map_option (Pair k') (node_of k h v)) kvs"
    proof (rule map_cong[OF refl])
      fix kv assume kv: "kv \<in> set kvs"
      obtain k' v where p: "kv = (k', v)" by (cases kv)
      from those_map_Some[OF ys kv] p obtain y where "node_of k h v = Some y" by auto
      with Suc.IH[OF Suc.prems(1) this] p
      show "(case kv of (k', v) \<Rightarrow> map_option (Pair k') (node_of k h' v))
          = (case kv of (k', v) \<Rightarrow> map_option (Pair k') (node_of k h v))" by simp
    qed
    have "node_of (Suc k) h' a
        = map_option NMap (those (map (\<lambda>(k', v). map_option (Pair k') (node_of k h' v)) kvs))"
      using ob' OMap by simp
    also have "\<dots>
        = map_option NMap (those (map (\<lambda>(k', v). map_option (Pair k') (node_of k h v)) kvs))"
      by (simp only: eq)
    also have "\<dots> = node_of (Suc k) h a"
      using ob OMap by simp
    finally show ?thesis using Suc.prems(2) by simp
  qed (use ob ob' Suc.prems(2) in simp_all)
qed

lemma color_store_build:
  "create_types_h ascii_title 4 [OMap [(KStr ''enum'', 1)], OSeq [2, 3], OStr ''red'', OStr ''green'']
       \<lparr>name = ''geo'', types = []\<rparr> ''Color'' 0
     = (Inr (EnumClass ''Color'' ''geo'' 5,
             \<lparr>name = ''geo'', types = [(''Color'', EnumClass ''Color'' ''geo'' 5)]\<rparr>),
        [OMap [(KStr ''enum'', 1)], OSeq [2, 3], OStr ''red'', OStr ''green'',
         OMap [(KStr ''enum'', 5)], OSeq [2, 3]])"
  by code_simp

lemma color_store_node:
  "node_of 3 [OMap [(KStr ''enum'', 1)], OSeq [2, 3], OStr ''red'', OStr ''green''] 0
     = Some (NMap [(KStr ''enum'', NSeq [NStr ''red'', NStr ''green''])])"
  "node_of 3 [OMap [(KStr ''enum'', 1)], OSeq [2, 3], OStr ''red'', OStr ''green'',
              OMap [(KStr ''enum'', 5)], OSeq [2, 3]] 0
     = Some (NMap [(KStr ''enum'', NSeq [NStr ''red'', NStr ''green''])])"
  by code_simp+

text \<open>
  Claim C10. Whatever the outcome of \<open>create_types\<close> on a store, a result or an error, the
  store it leaves only extends the one it was given: every object that was allocated is
  still there unchanged, so the node that the argument \<open>desc\<close> denoted is the node it
  still denotes. The builder works on the copy made by \<open>deepcopy\<close> and on the table of the
  namespace, and what it allocates is new.
\<close>

theorem input_node_unchanged:
  "prefix h (snd (create_types_h ttl fuel h ns n desc))
   \<and> (\<forall>a < length h. snd (create_types_h ttl fuel h ns n desc) ! a = h ! a)
   \<and> (\<forall>k x. node_of k h desc = Some x \<longrightarrow>
         node_of k (snd (create_types_h ttl fuel h ns n desc)) desc = Some x)"
proof -
  obtain r h' where a: "create_types_h ttl fuel h ns n desc = (r, h')"
    by (cases "create_types_h ttl fuel h ns n desc")
  from create_types_h_frame[OF le_refl a] have "take (length h) h' = h" by simp
  then have p: "prefix h h'" by (metis take_is_prefix)
  then have "h' ! b = h ! b" if "b < length h" for b
    using that by (auto simp: prefix_def nth_append)
  moreover from p have "node_of k h' desc = Some x" if "node_of k h desc = Some x" for k x
    using that by (rule node_of_prefix)
  ultimately show ?thesis using p a by simp
qed

theorem input_node_unchanged_witness:
  "create_types_h ascii_title 4 [OMap [(KStr ''enum'', 1)], OSeq [2, 3], OStr ''red'', OStr ''green'']
       \<lparr>name = ''geo'', types = []\<rparr> ''Color'' 0
     = (Inr (EnumClass ''Color'' ''geo'' 5,
             \<lparr>name = ''geo'', types = [(''Color'', EnumClass ''Color'' ''geo'' 5)]\<rparr>),
        [OMap [(KStr ''enum'', 1)], OSeq [2, 3], OStr ''red'', OStr ''green'',
         OMap [(KStr ''enum'', 5)], OSeq [2, 3]])
   \<and> prefix [OMap [(KStr ''enum'', 1)], OSeq [2, 3], OStr ''red'', OStr ''green'']
        [OMap [(KStr ''enum'', 1)], OSeq [2, 3], OStr ''red'', OStr ''green'',
         OMap [(KStr ''enum'', 5)], OSeq [2, 3]]
   \<and> node_of 3 [OMap [(KStr ''enum'', 1)], OSeq [2, 3], OStr ''red'', OStr ''green''] 0
     = Some (NMap [(KStr ''enum'', NSeq [NStr ''red'', NStr ''green''])])
   \<and> node_of 3 [OMap [(KStr ''enum'', 1)], OSeq [2, 3], OStr ''red'', OStr ''green'',
                 OMap [(KStr ''enum'', 5)], OSeq [2, 3]] 0
     = Some (NMap [(KStr ''enum'', NSeq [NStr ''red'', NStr ''green''])])"
  using input_node_unchanged [where ttl = ascii_title, of
      "[OMap [(KStr ''enum'', 1)], OSeq [2, 3], OStr ''red'', OStr ''green'']" 4
      "\<lparr>name = ''geo'', types = []\<rparr>" "''Color''" 0]
    color_store_build color_store_node
  by simp

end
